theory Spec2Isabelle
  imports Main "HOL-Library.Sublist"
begin

section \<open>Python string primitives used by the scraper drivers\<close>

text \<open>
  Strings are lists of characters, and a character is a code point below 256: ASCII and
  the Latin-1 letters. \<open>is_space\<close> is Python's \<open>str.isspace\<close> and \<open>upper\<close> is Python's
  \<open>str.upper\<close> on these code points, with two exceptions: the upper-case forms of U+00B5
  (micro sign) and U+00FF (y with diaeresis) lie beyond 255, so the model leaves the two
  characters as they are. \<open>in_upper_range\<close> says that a text holds neither; what is proved
  about upper-cased text is proved under it.
\<close>

definition lower_letters :: string where
  "lower_letters = ''abcdefghijklmnopqrstuvwxyz'' @
      [CHR 0xE0, CHR 0xE1, CHR 0xE2, CHR 0xE3, CHR 0xE4, CHR 0xE5, CHR 0xE6, CHR 0xE7,
       CHR 0xE8, CHR 0xE9, CHR 0xEA, CHR 0xEB, CHR 0xEC, CHR 0xED, CHR 0xEE, CHR 0xEF,
       CHR 0xF0, CHR 0xF1, CHR 0xF2, CHR 0xF3, CHR 0xF4, CHR 0xF5, CHR 0xF6, CHR 0xF8,
       CHR 0xF9, CHR 0xFA, CHR 0xFB, CHR 0xFC, CHR 0xFD, CHR 0xFE]"

definition upper_letters :: string where
  "upper_letters = ''ABCDEFGHIJKLMNOPQRSTUVWXYZ'' @
      [CHR 0xC0, CHR 0xC1, CHR 0xC2, CHR 0xC3, CHR 0xC4, CHR 0xC5, CHR 0xC6, CHR 0xC7,
       CHR 0xC8, CHR 0xC9, CHR 0xCA, CHR 0xCB, CHR 0xCC, CHR 0xCD, CHR 0xCE, CHR 0xCF,
       CHR 0xD0, CHR 0xD1, CHR 0xD2, CHR 0xD3, CHR 0xD4, CHR 0xD5, CHR 0xD6, CHR 0xD8,
       CHR 0xD9, CHR 0xDA, CHR 0xDB, CHR 0xDC, CHR 0xDD, CHR 0xDE]"

text \<open>The upper-case form of a character that has a single one.\<close>
definition upper_char :: "char \<Rightarrow> char" where
  "upper_char c = (case map_of (zip lower_letters upper_letters) c of Some u \<Rightarrow> u | None \<Rightarrow> c)"

text \<open>\<open>s.upper()\<close>; the sharp s, U+00DF, becomes \<open>SS\<close>.\<close>
definition upper :: "string \<Rightarrow> string" where
  "upper s = concat (map (\<lambda>c. if c = CHR 0xDF then ''SS'' else [upper_char c]) s)"


definition whitespace :: "char list" where
  "whitespace = [CHR 0x09, CHR 0x0A, CHR 0x0B, CHR 0x0C, CHR 0x0D,
                 CHR 0x1C, CHR 0x1D, CHR 0x1E, CHR 0x1F, CHR '' '', CHR 0x85, CHR 0xA0]"

definition is_space :: "char \<Rightarrow> bool" where
  "is_space c = (c \<in> set whitespace)"

text \<open>\<open>s.strip()\<close>\<close>
definition strip :: "string \<Rightarrow> string" where
  "strip s = rev (dropWhile is_space (rev (dropWhile is_space s)))"

text \<open>\<open>s.split()\<close>: the maximal runs of non-whitespace characters; \<open>w\<close> is the word being read.\<close>
fun split_words :: "string \<Rightarrow> string \<Rightarrow> string list" where
  "split_words w [] = (if w = [] then [] else [w])"
| "split_words w (c # cs) =
     (if is_space c then (if w = [] then split_words [] cs else w # split_words [] cs)
      else split_words (w @ [c]) cs)"

definition split_ws :: "string \<Rightarrow> string list" where
  "split_ws s = split_words [] s"

text \<open>\<open>s.split(sep)\<close> for a one-character separator: never empty, \<open>''.split(sep) == ['']\<close>.\<close>
fun split_sep :: "char \<Rightarrow> string \<Rightarrow> string \<Rightarrow> string list" where
  "split_sep sep w [] = [w]"
| "split_sep sep w (c # cs) =
     (if c = sep then w # split_sep sep [] cs else split_sep sep (w @ [c]) cs)"

definition split_on :: "char \<Rightarrow> string \<Rightarrow> string list" where
  "split_on sep s = split_sep sep [] s"

text \<open>\<open>sep.join(xs)\<close>\<close>
fun join :: "string \<Rightarrow> string list \<Rightarrow> string" where
  "join sep [] = []"
| "join sep [x] = x"
| "join sep (x # y # ys) = x @ sep @ join sep (y # ys)"

text \<open>\<open>s.startswith(p)\<close>\<close>
fun starts_with :: "string \<Rightarrow> string \<Rightarrow> bool" where
  "starts_with s [] = True"
| "starts_with [] (p # ps) = False"
| "starts_with (c # cs) (p # ps) = (c = p \<and> starts_with cs ps)"

text \<open>\<open>p in s\<close> (JavaScript \<open>s.includes(p)\<close>)\<close>
fun contains :: "string \<Rightarrow> string \<Rightarrow> bool" where
  "contains [] p = (p = [])"
| "contains (c # cs) p = (starts_with (c # cs) p \<or> contains cs p)"

text \<open>
  \<open>s.replace(old, new)\<close> for a non-empty \<open>old\<close>: the occurrences are found left to right
  and do not overlap. \<open>k\<close> is the number of characters of the current occurrence still to
  be skipped.
\<close>
fun replace_from :: "string \<Rightarrow> string \<Rightarrow> nat \<Rightarrow> string \<Rightarrow> string" where
  "replace_from old new k [] = []"
| "replace_from old new (Suc k) (c # cs) = replace_from old new k cs"
| "replace_from old new 0 (c # cs) =
     (if starts_with (c # cs) old then new @ replace_from old new (length old - 1) cs
      else c # replace_from old new 0 cs)"

text \<open>With an empty \<open>old\<close> Python puts \<open>new\<close> before every character and at the end.\<close>
definition replace :: "string \<Rightarrow> string \<Rightarrow> string \<Rightarrow> string" where
  "replace old new s =
     (if old = [] then new @ concat (map (\<lambda>c. c # new) s) else replace_from old new 0 s)"

section \<open>The owner-name parser (dallasprobate.py, \<open>parse_owner_name\<close>)\<close>

text \<open>An owner is the tuple \<open>(first, middle, last, search)\<close> the parser appends.\<close>
type_synonym owner = "string \<times> string \<times> string \<times> string"

definition cleanup_phrases :: "string list" where
  "cleanup_phrases = [''EST OF'', ''ET AL'', ''ESTATE OF'', ''ESTATE'', ''EST'']"

text \<open>\<open>for phrase in cleanup_phrases: cleaned = cleaned.replace(phrase, ' ')\<close>\<close>
definition strip_phrases :: "string \<Rightarrow> string" where
  "strip_phrases s = fold (\<lambda>phrase acc. replace phrase '' '' acc) cleanup_phrases s"

text \<open>The same loop with \<open>.strip()\<close> after every replacement, as in the co-owner branch.\<close>
definition strip_phrases_each :: "string \<Rightarrow> string" where
  "strip_phrases_each s = fold (\<lambda>phrase acc. strip (replace phrase '' '' acc)) cleanup_phrases s"

text \<open>\<open>last, first = words[0], words[1]; middle = ' '.join(words[2:])\<close> for two or more words.\<close>
definition positional :: "string list \<Rightarrow> owner" where
  "positional ws =
     (case ws of
        l # f # rest \<Rightarrow> (f, (if length ws > 2 then join '' '' rest else []), l, l @ '', '' @ f)
      | _ \<Rightarrow> ([], [], [], []))"

definition parse_owner_name :: "string \<Rightarrow> owner list" where
  "parse_owner_name raw_owner_string =
     (let cleaned = strip_phrases (strip (upper raw_owner_string));
          cleaned = join '' '' (split_ws cleaned)
      in if CHR ''&'' \<in> set cleaned then
           (let parts = split_on CHR ''&'' cleaned;
                first_part = strip_phrases_each (strip (case parts of [] \<Rightarrow> [] | p # _ \<Rightarrow> p));
                second_part = strip_phrases_each
                                (case parts of _ # q # _ \<Rightarrow> strip q | _ \<Rightarrow> []);
                first_owner_words = split_ws first_part;
                owners_list = (if length first_owner_words \<ge> 2
                               then [positional first_owner_words] else []);
                second_words = split_ws second_part
            in if length second_words = 1 \<and> length first_owner_words \<ge> 1 then
                 (case (first_owner_words, second_words) of
                    (last2 # _, first2 # _) \<Rightarrow>
                       owners_list @ [(first2, [], last2, last2 @ '', '' @ first2)]
                  | _ \<Rightarrow> owners_list)
               else if length second_words \<ge> 2 then owners_list @ [positional second_words]
               else owners_list)
         else
           (let words = split_ws cleaned
            in if CHR '','' \<in> set cleaned then
                 (let parts = split_on CHR '','' cleaned;
                      last = strip (case parts of [] \<Rightarrow> [] | p # _ \<Rightarrow> p);
                      rest = (case parts of _ # q # _ \<Rightarrow> strip q | _ \<Rightarrow> []);
                      rest_words = split_ws rest;
                      first = (case rest_words of [] \<Rightarrow> [] | f # _ \<Rightarrow> f);
                      middle = (if length rest_words > 1 then join '' '' (tl rest_words) else [])
                  in [(first, middle, last, last @ '', '' @ first)])
               else if length words \<ge> 2 then [positional words]
               else (let last = (case words of [] \<Rightarrow> [] | l # _ \<Rightarrow> l)
                     in [([], [], last, last)])))"

section \<open>The CAPTCHA vendor exchange\<close>

text \<open>
  A Python call that may raise is a value of a sum type: \<open>Inl msg\<close> is an exception whose
  \<open>str(e)\<close> is \<open>msg\<close>, \<open>Inr v\<close> is the returned value.
\<close>
type_synonym 'a raising = "string + 'a"

text \<open>The JSON answer of \<open>createTask\<close>; \<open>None\<close> is an absent key.\<close>
record create_response =
  errorId :: "int option"
  errorDescription :: "string option"
  taskId :: "string option"

text \<open>
  The JSON answer of \<open>getTaskResult\<close>: \<open>solution\<close> is \<open>None\<close> without the key
  \<open>"solution"\<close>, \<open>Some None\<close> when that object lacks \<open>"gRecaptchaResponse"\<close>.
\<close>
record task_result =
  task_status :: "string option"
  solution :: "string option option"

text \<open>\<open>str(KeyError(key))\<close>\<close>
definition key_error :: "string \<Rightarrow> string" where
  "key_error key = [CHR 0x27] @ key @ [CHR 0x27]"

text \<open>
  The polling loop \<open>for attempt in range(n)\<close> shared by both solvers: \<open>poll a\<close> is what the
  request of attempt \<open>a\<close> gives. \<open>Inr None\<close> is the loop running out, \<open>Inr (Some token)\<close> the
  \<open>return\<close> inside it, \<open>Inl\<close> an exception of the request or a missing key.
\<close>
fun poll_task :: "(nat \<Rightarrow> task_result raising) \<Rightarrow> nat \<Rightarrow> nat \<Rightarrow> string option raising" where
  "poll_task poll attempt 0 = Inr None"
| "poll_task poll attempt (Suc n) =
     (case poll attempt of
        Inl e \<Rightarrow> Inl e
      | Inr data \<Rightarrow>
          if task_status data = Some ''ready''
          then (case solution data of
                  None \<Rightarrow> Inl (key_error ''solution'')
                | Some None \<Rightarrow> Inl (key_error ''gRecaptchaResponse'')
                | Some (Some token) \<Rightarrow> Inr (Some token))
          else poll_task poll (Suc attempt) n)"

text \<open>\<open>f"CapSolver error: {result.get('errorDescription')}"\<close>\<close>
definition capsolver_error :: "create_response \<Rightarrow> string" where
  "capsolver_error result =
     ''CapSolver error: '' @ (case errorDescription result of None \<Rightarrow> ''None'' | Some d \<Rightarrow> d)"

text \<open>dallasprobate.py, \<open>solve_captcha\<close>: 60 attempts, three seconds apart; failures are raised.\<close>
definition solve_captcha ::
    "create_response raising \<Rightarrow> (nat \<Rightarrow> task_result raising) \<Rightarrow> string raising" where
  "solve_captcha created poll =
     (case created of
        Inl e \<Rightarrow> Inl e
      | Inr result \<Rightarrow>
          if errorId result \<noteq> Some 0 then Inl (capsolver_error result)
          else (case taskId result of
                  None \<Rightarrow> Inl (key_error ''taskId'')
                | Some task_id \<Rightarrow>
                    (case poll_task poll 0 60 of
                       Inl e \<Rightarrow> Inl e
                     | Inr (Some token) \<Rightarrow> Inr token
                     | Inr None \<Rightarrow> Inl ''CAPTCHA solving timeout'')))"

text \<open>
  services/captcha/solver.py, \<open>CaptchaSolver.solve\<close>: the body of the \<open>try\<close>, with
  \<open>max_attempts = timeout // 3\<close>, returns \<open>None\<close> on a vendor error and when the loop runs out.
\<close>
definition solve_body ::
    "int \<Rightarrow> create_response raising \<Rightarrow> (nat \<Rightarrow> task_result raising) \<Rightarrow> string option raising" where
  "solve_body timeout created poll =
     (case created of
        Inl e \<Rightarrow> Inl e
      | Inr result \<Rightarrow>
          if errorId result \<noteq> Some 0 then Inr None
          else (case taskId result of
                  None \<Rightarrow> Inl (key_error ''taskId'')
                | Some task_id \<Rightarrow> poll_task poll 0 (nat (timeout div 3))))"

text \<open>\<open>except Exception as e: ... return None\<close> around that body.\<close>
definition solve ::
    "int \<Rightarrow> create_response raising \<Rightarrow> (nat \<Rightarrow> task_result raising) \<Rightarrow> string option raising" where
  "solve timeout created poll =
     (case solve_body timeout created poll of Inl e \<Rightarrow> Inr None | Inr r \<Rightarrow> Inr r)"

section \<open>Waiting for the result page (dallasprobate.py, \<open>wait_for_results\<close>)\<close>

text \<open>
  What one run of \<open>checkResults\<close> sees: no \<open>document.body\<close>, or the number of
  \<open>div.party-card\<close> elements and the body's text.
\<close>
datatype dom_state = NoBody | Body nat string

definition maxAttempts :: nat where
  "maxAttempts = 20"

definition no_results_text :: "string \<Rightarrow> bool" where
  "no_results_text bodyText =
     (contains bodyText ''No cases match your search'' \<or> contains bodyText ''No records''
      \<or> contains bodyText ''no results found'')"

text \<open>
  \<open>checkResults\<close> re-arms itself with \<open>setTimeout\<close> while \<open>attempts < maxAttempts\<close>;
  \<open>doc k\<close> is the page at the \<open>k\<close>-th run. The result is \<open>(success, count)\<close>.
\<close>
function checkResults :: "(nat \<Rightarrow> dom_state) \<Rightarrow> nat \<Rightarrow> bool \<times> nat" where
  "checkResults doc attempts =
     (case doc (Suc attempts) of
        NoBody \<Rightarrow> if Suc attempts < maxAttempts then checkResults doc (Suc attempts) else (False, 0)
      | Body partyCards bodyText \<Rightarrow>
          if partyCards > 0 then (True, partyCards)
          else if no_results_text bodyText then (True, 0)
          else if Suc attempts < maxAttempts then checkResults doc (Suc attempts)
          else (False, 0))"
  by pat_completeness auto
termination
  by (relation "measure (\<lambda>(doc, attempts). maxAttempts - attempts)") auto

declare checkResults.simps [simp del]

text \<open>
  The wait for the loading mask is wrapped in \<open>try ... except: pass\<close> and changes nothing;
  \<open>page.evaluate\<close> may raise (\<open>Inl\<close>).
\<close>
definition wait_for_results :: "(nat \<Rightarrow> dom_state) raising \<Rightarrow> (bool \<times> nat) raising" where
  "wait_for_results page =
     (case page of Inl e \<Rightarrow> Inl e | Inr doc \<Rightarrow> Inr (checkResults doc 0))"

section \<open>Scanning the result cards (dallasprobate.py, \<open>process_search_results\<close>)\<close>

text \<open>
  The result page as the scan reads it. A cell is a \<open>td.card-data\<close>: its \<open>class\<close>
  attribute (\<open>None\<close> when absent) and its text (\<open>None\<close> when reading it raises). A case is
  a \<open>table.kgrid-card-table\<close>: its cells, or \<open>None\<close> when locating them raises. A party
  card has its text and its cases, each \<open>None\<close> when the read raises.
\<close>
record td =
  td_class :: "string option"
  td_text :: "string option"

type_synonym case_table = "td list option"

record party_card =
  card_text :: "string option"
  case_tables :: "case_table list option"

text \<open>The reads the scan performs, in order: the effect the short-circuit is about.\<close>
datatype dom_read = CardRead party_card | CaseRead case_table

text \<open>
  \<open>for td in all_tds\<close>: the last cell of each kind wins, a cell with both classes counts as
  a type cell, and an unreadable cell raises (\<open>None\<close>).
\<close>
fun scan_cells ::
    "td list \<Rightarrow> string option \<Rightarrow> string option \<Rightarrow> (string option \<times> string option) option" where
  "scan_cells [] case_type case_status = Some (case_type, case_status)"
| "scan_cells (d # ds) case_type case_status =
     (case td_text d of
        None \<Rightarrow> None
      | Some t \<Rightarrow>
          (let td_classes = (case td_class d of None \<Rightarrow> [] | Some c \<Rightarrow> c);
               text = upper (strip t)
           in if contains td_classes ''party-case-type'' then scan_cells ds (Some text) case_status
              else if contains td_classes ''party-case-status'' then scan_cells ds case_type (Some text)
              else scan_cells ds case_type case_status))"

definition is_disqualifying_type :: "string \<Rightarrow> bool" where
  "is_disqualifying_type case_type =
     (starts_with case_type ''DECEDENT - WILL'' \<or> starts_with case_type ''HEIRSHIP''
      \<or> contains case_type ''HEIRSHIP'')"

text \<open>
  The body of \<open>for case_table in case_tables\<close>: true when it reaches
  \<open>disqualifying_case_found = True\<close>; an exception inside it is \<open>except: continue\<close>.
\<close>
definition case_disqualifies :: "case_table \<Rightarrow> bool" where
  "case_disqualifies case_table =
     (case case_table of
        None \<Rightarrow> False
      | Some all_tds \<Rightarrow>
          (case scan_cells all_tds None None of
             None \<Rightarrow> False
           | Some (case_type, case_status) \<Rightarrow>
               (case case_type of
                  None \<Rightarrow> False
                | Some ty \<Rightarrow> ty \<noteq> [] \<and> is_disqualifying_type ty \<and> case_status = Some ''OPEN'')))"

text \<open>The loop over the cases of one card, with its \<open>break\<close>.\<close>
fun scan_cases :: "case_table list \<Rightarrow> bool \<times> dom_read list" where
  "scan_cases [] = (False, [])"
| "scan_cases (t # ts) =
     (if case_disqualifies t then (True, [CaseRead t])
      else (case scan_cases ts of (found, reads) \<Rightarrow> (found, CaseRead t # reads)))"

text \<open>\<open>expected_exact\<close> and \<open>expected_with_middle\<close>\<close>
definition expected_names :: "string \<Rightarrow> string \<Rightarrow> string \<Rightarrow> string \<times> string option" where
  "expected_names first_name middle_name last_name =
     (let first_upper = strip (upper first_name);
          middle_upper = (if middle_name \<noteq> [] then strip (upper middle_name) else []);
          last_upper = strip (upper last_name)
      in (last_upper @ '', '' @ first_upper,
          if middle_upper \<noteq> []
          then Some (last_upper @ '', '' @ first_upper @ '' '' @ take 1 middle_upper @ ''.'')
          else None))"

definition line_clean :: "string \<Rightarrow> string" where
  "line_clean line = join '' '' (split_ws (strip line))"

definition owner_line :: "string \<Rightarrow> string option \<Rightarrow> string \<Rightarrow> bool" where
  "owner_line expected_exact expected_with_middle l =
     (CHR '','' \<in> set l \<and> 5 < length l \<and> length l < 100
      \<and> (contains l expected_exact
          \<or> (case expected_with_middle of None \<Rightarrow> False | Some m \<Rightarrow> contains l m)))"

text \<open>
  \<open>owner_text\<close>: the first line that names the owner, else the expected name itself when the
  card's text contains it. Every candidate is non-empty, so \<open>if not owner_text\<close> is the
  \<open>None\<close> case.
\<close>
definition find_owner_text :: "string \<Rightarrow> string option \<Rightarrow> string \<Rightarrow> string option" where
  "find_owner_text expected_exact expected_with_middle card_full_text =
     (case find (owner_line expected_exact expected_with_middle)
                (map line_clean (split_on CHR 0x0A card_full_text)) of
        Some l \<Rightarrow> Some l
      | None \<Rightarrow>
          if contains card_full_text expected_exact then Some expected_exact
          else (case expected_with_middle of
                  None \<Rightarrow> None
                | Some m \<Rightarrow> if contains card_full_text m then Some m else None))"

definition name_matches :: "string \<Rightarrow> string option \<Rightarrow> string \<Rightarrow> bool" where
  "name_matches expected_exact expected_with_middle owner_text =
     (let owner_normalized = join '' '' (split_ws owner_text)
      in if owner_normalized = expected_exact then True
         else if expected_with_middle = Some owner_normalized then True
         else if contains owner_normalized expected_exact then
           (let remaining = strip (replace expected_exact [] owner_normalized);
                remaining_words = filter (\<lambda>w. w \<noteq> []) (split_ws remaining)
            in length remaining_words \<le> 1)
         else False)"

text \<open>
  The cases the loop body goes on to scan for one card: none when the card is left by a
  \<open>continue\<close> (no owner text, no name match) or by an exception of a read.
\<close>
definition matching_tables :: "string \<Rightarrow> string option \<Rightarrow> party_card \<Rightarrow> case_table list" where
  "matching_tables expected_exact expected_with_middle party_card =
     (case card_text party_card of
        None \<Rightarrow> []
      | Some t \<Rightarrow>
          (case find_owner_text expected_exact expected_with_middle (upper t) of
             None \<Rightarrow> []
           | Some owner_text \<Rightarrow>
               if name_matches expected_exact expected_with_middle owner_text
               then (case case_tables party_card of None \<Rightarrow> [] | Some tables \<Rightarrow> tables)
               else []))"

text \<open>The loop over the cards, left by \<open>break\<close> as soon as a case disqualifies.\<close>
fun scan_cards :: "string \<Rightarrow> string option \<Rightarrow> party_card list \<Rightarrow> bool \<times> dom_read list" where
  "scan_cards expected_exact expected_with_middle [] = (False, [])"
| "scan_cards expected_exact expected_with_middle (party_card # cards) =
     (case scan_cases (matching_tables expected_exact expected_with_middle party_card) of
        (True, reads) \<Rightarrow> (True, CardRead party_card # reads)
      | (False, reads) \<Rightarrow>
          (case scan_cards expected_exact expected_with_middle cards of
             (found, later) \<Rightarrow> (found, CardRead party_card # reads @ later)))"

text \<open>
  \<open>process_search_results\<close>: \<open>disqualifying_case_found\<close> and the reads made. \<open>None\<close> for the
  cards is \<open>page.locator('div.party-card').all()\<close> raising, which the outer \<open>except\<close> passes.
\<close>
definition process_search_results ::
    "party_card list option \<Rightarrow> string \<Rightarrow> string \<Rightarrow> string \<Rightarrow> bool \<times> dom_read list" where
  "process_search_results page first_name middle_name last_name =
     (case expected_names first_name middle_name last_name of
        (expected_exact, expected_with_middle) \<Rightarrow>
          (case page of
             None \<Rightarrow> (False, [])
           | Some cards \<Rightarrow> scan_cards expected_exact expected_with_middle cards))"

section \<open>One search attempt and one work item (dallasprobate.py, \<open>worker_process\<close>)\<close>

text \<open>
  What the browser and the vendor do during the attempt for one owner: each field is the
  outcome of one call of the \<open>try\<close> block, in the order of the calls.
  \<open>detect_captcha\<close> is the pair \<open>detect_captcha_type\<close> returns.
\<close>
record attempt =
  fill_search :: "unit raising"
  detect_captcha :: "(string option \<times> string option) raising"
  create_task :: "create_response raising"
  task_polls :: "nat \<Rightarrow> task_result raising"
  inject_token :: "unit raising"
  click_submit :: "unit raising"
  result_page :: "(nat \<Rightarrow> dom_state) raising"
  party_cards :: "party_card list option"

text \<open>The three ways the \<open>try\<close> block ends without an exception.\<close>
datatype search_result = SearchTimeout | SearchFound nat bool | SearchNone

definition search_owner :: "attempt \<Rightarrow> owner \<Rightarrow> search_result raising" where
  "search_owner page ow =
     (case ow of (first, middle, surname, search_term) \<Rightarrow>
      (case fill_search page of Inl e \<Rightarrow> Inl e | Inr _ \<Rightarrow>
      (case detect_captcha page of Inl e \<Rightarrow> Inl e | Inr (captcha_type, site_key) \<Rightarrow>
      (case (if captcha_type \<noteq> None \<and> captcha_type \<noteq> Some []
             then (case solve_captcha (create_task page) (task_polls page) of
                     Inl e \<Rightarrow> Inl e | Inr token \<Rightarrow> inject_token page)
             else Inr ()) of Inl e \<Rightarrow> Inl e | Inr _ \<Rightarrow>
      (case click_submit page of Inl e \<Rightarrow> Inl e | Inr _ \<Rightarrow>
      (case wait_for_results (result_page page) of Inl e \<Rightarrow> Inl e | Inr (success, row_count) \<Rightarrow>
         if \<not> success then Inr SearchTimeout
         else if row_count > 0
         then Inr (SearchFound row_count
                     (fst (process_search_results (party_cards page) first middle surname)))
         else Inr SearchNone))))))"

datatype status = FOUND_CLEAN | DISQUALIFIED | NOT_FOUND | TIMEOUT | ERROR

text \<open>The dictionary put on the results queue; \<open>property\<close> holds the eight property fields.\<close>
record log_entry =
  row :: string
  raw_owner :: string
  first_name :: string
  middle_name :: string
  last_name :: string
  search_term :: string
  property :: "(string \<times> string) list"
  status :: status
  count :: nat
  error :: "string option"
  disqualifying_probate_found :: bool
  overall_property_failed :: bool

text \<open>
  The body of the loop over the owners of one item: the entry it puts on the results queue
  and the new value of \<open>owners_failed_filter\<close>.
\<close>
definition attempt_owner ::
    "string \<Rightarrow> string \<Rightarrow> (string \<times> string) list \<Rightarrow> attempt \<Rightarrow> owner \<Rightarrow> bool \<Rightarrow> log_entry \<times> bool" where
  "attempt_owner owner_label raw props page ow owners_failed_filter =
     (case ow of (first, middle, surname, search) \<Rightarrow>
      (let entry = (\<lambda>st n err disq failed.
             \<lparr>row = owner_label, raw_owner = raw, first_name = first, middle_name = middle,
              last_name = surname, search_term = search, property = props, status = st, count = n,
              error = err, disqualifying_probate_found = disq, overall_property_failed = failed\<rparr>)
       in case search_owner page ow of
            Inr SearchTimeout \<Rightarrow>
              (entry TIMEOUT 0 None False owners_failed_filter, owners_failed_filter)
          | Inr (SearchFound row_count owner_disqualified) \<Rightarrow>
              (let failed = (if owner_disqualified then True else owners_failed_filter)
               in (entry (if owner_disqualified then DISQUALIFIED else FOUND_CLEAN) row_count None
                         owner_disqualified failed, failed))
          | Inr SearchNone \<Rightarrow>
              (entry NOT_FOUND 0 None False owners_failed_filter, owners_failed_filter)
          | Inl e \<Rightarrow>
              (entry ERROR 0 (Some e) False owners_failed_filter, owners_failed_filter)))"

definition digits :: string where
  "digits = ''0123456789''"

text \<open>\<open>str(n)\<close> for a row number\<close>
function show_nat :: "nat \<Rightarrow> string" where
  "show_nat n = (if n < 10 then [digits ! n] else show_nat (n div 10) @ [digits ! (n mod 10)])"
  by pat_completeness auto
termination
  by (relation "measure id") auto

declare show_nat.simps [simp del]

text \<open>A work item is the tuple \<open>(original_row, raw_owner, parsed_owners)\<close>.\<close>
type_synonym work_item = "nat \<times> string \<times> owner list"

definition owner_label :: "nat \<Rightarrow> nat \<Rightarrow> nat \<Rightarrow> string" where
  "owner_label original_row n owner_idx =
     (if n = 1 then show_nat original_row
      else show_nat original_row @ ''.'' @ show_nat (owner_idx + 1))"

text \<open>
  \<open>for owner_idx, owner in enumerate(parsed_owners)\<close>: \<open>pages owner_idx\<close> is what the browser
  does during that owner's attempt. Returns the entries put on the results queue, in
  order, and the last value of \<open>owners_failed_filter\<close>.
\<close>
fun process_owners ::
    "(nat \<Rightarrow> string) \<Rightarrow> string \<Rightarrow> (string \<times> string) list \<Rightarrow> (nat \<Rightarrow> attempt) \<Rightarrow> nat \<Rightarrow> owner list
       \<Rightarrow> bool \<Rightarrow> log_entry list \<times> bool" where
  "process_owners label raw props pages owner_idx [] owners_failed_filter =
     ([], owners_failed_filter)"
| "process_owners label raw props pages owner_idx (ow # rest) owners_failed_filter =
     (case attempt_owner (label owner_idx) raw props (pages owner_idx) ow owners_failed_filter of
        (entry, failed) \<Rightarrow>
          (case process_owners label raw props pages (Suc owner_idx) rest failed of
             (entries, final) \<Rightarrow> (entry # entries, final)))"

definition property_keys :: "string list" where
  "property_keys = [''account_number'', ''address'', ''market_value'', ''total_tax_owed'',
                    ''tax_to_value_ratio'', ''prior_year_due'', ''current_levy'', ''unpaid_years'']"

text \<open>\<open>prop_data = property_data_dict.get(raw_owner, {})\<close> and \<open>prop_data.get(key, 'N/A')\<close>\<close>
definition property_fields ::
    "(string \<rightharpoonup> (string \<rightharpoonup> string)) \<Rightarrow> string \<Rightarrow> (string \<times> string) list" where
  "property_fields property_data_dict raw =
     map (\<lambda>key. (key, case property_data_dict raw of
                         None \<Rightarrow> ''N/A''
                       | Some prop_data \<Rightarrow> (case prop_data key of None \<Rightarrow> ''N/A'' | Some v \<Rightarrow> v)))
         property_keys"

text \<open>Everything between the dequeue of one item and the update of the statistics.\<close>
definition process_item ::
    "(string \<rightharpoonup> (string \<rightharpoonup> string)) \<Rightarrow> work_item \<Rightarrow> (nat \<Rightarrow> attempt) \<Rightarrow> log_entry list \<times> bool" where
  "process_item property_data_dict owner_task pages =
     (case owner_task of (original_row, raw, parsed_owners) \<Rightarrow>
        process_owners (owner_label original_row (length parsed_owners)) raw
          (property_fields property_data_dict raw) pages 0 parsed_owners False)"

section \<open>The worker pool (\<open>worker_process\<close> of both drivers)\<close>

text \<open>\<open>stats_dict\<close>, read and written under \<open>stats_lock\<close>.\<close>
record stats =
  completed :: int
  "qualified" :: int
  in_progress :: int

text \<open>
  Where one worker process stands: about to call \<open>work_queue.get\<close>; holding an item it has
  dequeued, before \<open>in_progress += 1\<close>; working on it; gone through the poison pill; gone
  through the \<open>Empty\<close> branch; crashed. A crash is any end of the process that is not one
  of the two \<open>break\<close>s, among them the \<open>return\<close> of the probate worker whose set-up failed.
\<close>
datatype 'item worker = Idle | Popped 'item | Busy 'item | ShutDown | Drained | Crashed

text \<open>
  The shared state of a run. A \<open>None\<close> in the work queue is a poison pill. Queue operations
  and the blocks under \<open>stats_lock\<close> are atomic, and the processes interleave between them.
  The handling of one item, from its first search to the update of the statistics, is shown
  as one step: its entries reach the results queue together. The calls on the manager's
  queues, dictionary and locks are taken not to raise, so the outer \<open>except Exception\<close> of
  the probate worker is not entered; a \<open>queue.get\<close> raises \<open>Empty\<close> only on an empty queue.
\<close>
record ('item, 'out) pool =
  work_queue :: "'item option list"
  results_queue :: "'out list"
  stats_dict :: stats
  workers :: "'item worker list"

text \<open>
  One scheduling decision: a worker takes its next step, \<open>Run page\<close>, where \<open>page\<close> is what the
  outside world does if that step processes an item, or it crashes.
\<close>
datatype 'obs action = Run 'obs | Crash

text \<open>The test of the \<open>Empty\<close> branch of a worker.\<close>
definition nothing_in_progress :: "stats \<Rightarrow> bool" where
  "nothing_in_progress st = (in_progress st = 0)"

text \<open>
  The next step of worker \<open>w\<close>. \<open>process w item page\<close> is the driver's handling of one item:
  what it puts on the results queue and what it adds to \<open>completed\<close>, \<open>qualified\<close> and
  \<open>in_progress\<close>. A worker that has ended has no step (\<open>None\<close>).
\<close>
definition worker_step ::
    "(nat \<Rightarrow> 'item \<Rightarrow> 'obs \<Rightarrow> 'out list \<times> int \<times> int \<times> int) \<Rightarrow> nat \<Rightarrow> 'obs action
       \<Rightarrow> ('item, 'out) pool \<Rightarrow> ('item, 'out) pool option" where
  "worker_step process w act s =
     (if w \<ge> length (workers s) then None
      else (case workers s ! w of
              ShutDown \<Rightarrow> None
            | Drained \<Rightarrow> None
            | Crashed \<Rightarrow> None
            | Idle \<Rightarrow>
                (case act of
                   Crash \<Rightarrow> Some (s\<lparr>workers := (workers s)[w := Crashed]\<rparr>)
                 | Run page \<Rightarrow>
                     (case work_queue s of
                        [] \<Rightarrow> if nothing_in_progress (stats_dict s)
                              then Some (s\<lparr>workers := (workers s)[w := Drained]\<rparr>)
                              else Some s
                      | None # queue \<Rightarrow>
                          Some (s\<lparr>work_queue := queue, workers := (workers s)[w := ShutDown]\<rparr>)
                      | Some item # queue \<Rightarrow>
                          Some (s\<lparr>work_queue := queue,
                                  workers := (workers s)[w := Popped item]\<rparr>)))
            | Popped item \<Rightarrow>
                (case act of
                   Crash \<Rightarrow> Some (s\<lparr>workers := (workers s)[w := Crashed]\<rparr>)
                 | Run page \<Rightarrow>
                     Some (s\<lparr>stats_dict := (stats_dict s)
                                 \<lparr>in_progress := in_progress (stats_dict s) + 1\<rparr>,
                             workers := (workers s)[w := Busy item]\<rparr>))
            | Busy item \<Rightarrow>
                (case act of
                   Crash \<Rightarrow> Some (s\<lparr>workers := (workers s)[w := Crashed]\<rparr>)
                 | Run page \<Rightarrow>
                     (case process w item page of
                        (outs, dc, dq, dp) \<Rightarrow>
                          Some (s\<lparr>results_queue := results_queue s @ outs,
                                  stats_dict := \<lparr>completed = completed (stats_dict s) + dc,
                                                 qualified = qualified (stats_dict s) + dq,
                                                 in_progress = in_progress (stats_dict s) + dp\<rparr>,
                                  workers := (workers s)[w := Idle]\<rparr>)))))"

text \<open>A run: the steps of a schedule, one after the other; \<open>None\<close> if a step is not possible.\<close>
fun run ::
    "(nat \<Rightarrow> 'item \<Rightarrow> 'obs \<Rightarrow> 'out list \<times> int \<times> int \<times> int) \<Rightarrow> (nat \<times> 'obs action) list
       \<Rightarrow> ('item, 'out) pool \<Rightarrow> ('item, 'out) pool option" where
  "run process [] s = Some s"
| "run process ((w, act) # sched) s =
     (case worker_step process w act s of None \<Rightarrow> None | Some s' \<Rightarrow> run process sched s')"

text \<open>\<open>main\<close> after the queue is filled: zeroed statistics and \<open>n\<close> fresh workers.\<close>
definition start_pool :: "'item option list \<Rightarrow> nat \<Rightarrow> ('item, 'out) pool" where
  "start_pool queue n =
     \<lparr>work_queue = queue, results_queue = [],
      stats_dict = \<lparr>completed = 0, qualified = 0, in_progress = 0\<rparr>,
      workers = replicate n Idle\<rparr>"

fun is_crash :: "'obs action \<Rightarrow> bool" where
  "is_crash Crash = True"
| "is_crash (Run page) = False"

definition crash_free :: "(nat \<times> 'obs action) list \<Rightarrow> bool" where
  "crash_free sched = list_all (\<lambda>(w, act). \<not> is_crash act) sched"

fun ended :: "'item worker \<Rightarrow> bool" where
  "ended ShutDown = True"
| "ended Drained = True"
| "ended Crashed = True"
| "ended _ = False"

text \<open>All worker processes have ended: \<open>main\<close> gets past its \<open>join\<close>s.\<close>
definition terminated :: "('item, 'out) pool \<Rightarrow> bool" where
  "terminated s = list_all ended (workers s)"

subsection \<open>The probate driver\<close>

text \<open>
  After the loop over the owners the worker adds one to \<open>completed\<close> and takes one from
  \<open>in_progress\<close>; \<open>qualified\<close> is the writer's.
\<close>
definition probate_process ::
    "(string \<rightharpoonup> (string \<rightharpoonup> string)) \<Rightarrow> nat \<Rightarrow> work_item \<Rightarrow> (nat \<Rightarrow> attempt)
       \<Rightarrow> log_entry list \<times> int \<times> int \<times> int" where
  "probate_process property_data_dict w owner_task pages =
     (fst (process_item property_data_dict owner_task pages), 1, 0, - 1)"

subsection \<open>The tax driver (dallastax.py)\<close>

text \<open>
  The item is \<open>(original_row, last_name, first_name)\<close>. During one item the outside world
  answers the search (\<open>search_and_extract\<close> catches its own exceptions and returns \<open>None\<close>)
  and the append to the shared output file succeeds or raises.
\<close>
type_synonym tax_item = "nat \<times> string \<times> string"

record 'pd tax_page =
  search_and_extract :: "'pd option"
  write_file :: "unit raising"

text \<open>
  The inner \<open>try\<close> and its \<open>except\<close>: the result put on the queue is
  \<open>(worker_id, row, data)\<close> with \<open>worker_id = w + 1\<close>. Both ways out add one to \<open>completed\<close> and
  take one from \<open>in_progress\<close>.
\<close>
definition tax_process ::
    "nat \<Rightarrow> tax_item \<Rightarrow> 'pd tax_page \<Rightarrow> (nat \<times> nat \<times> 'pd) list \<times> int \<times> int \<times> int" where
  "tax_process w owner_data page =
     (case owner_data of (original_row, surname, forename) \<Rightarrow>
        (case search_and_extract page of
           None \<Rightarrow> ([], 1, 0, - 1)
         | Some property_data \<Rightarrow>
             (case write_file page of
                Inl e \<Rightarrow> ([], 1, 0, - 1)
              | Inr _ \<Rightarrow> ([(w + 1, original_row, property_data)], 1, 1, - 1))))"

section \<open>The result writer (dallasprobate.py, \<open>result_writer_process\<close>)\<close>

text \<open>What \<open>queue.get(timeout=...)\<close> gives: the \<open>Empty\<close> exception or the value taken.\<close>
datatype 'a got = Empty | Got 'a

text \<open>The writer's counters and the entries it has appended to the two output files.\<close>
record writer =
  qualified_count :: nat
  total_processed :: nat
  written :: "log_entry list"

text \<open>The test of the \<open>Empty\<close> branch of the writer.\<close>
definition all_work_complete :: "int \<Rightarrow> stats \<Rightarrow> bool" where
  "all_work_complete total_tasks st = (completed st \<ge> total_tasks \<and> in_progress st = 0)"

text \<open>
  One turn of the writer's loop on what it got from the results queue (\<open>Got None\<close> is the
  poison pill): the new statistics and counters, and whether the loop is left.
\<close>
definition result_writer ::
    "int \<Rightarrow> log_entry option got \<Rightarrow> stats \<times> writer \<Rightarrow> (stats \<times> writer) \<times> bool" where
  "result_writer total_tasks entry sw =
     (case sw of (st, wr) \<Rightarrow>
        (case entry of
           Empty \<Rightarrow> ((st, wr), all_work_complete total_tasks st)
         | Got None \<Rightarrow> ((st, wr), True)
         | Got (Some e) \<Rightarrow>
             if status e = FOUND_CLEAN \<or> status e = NOT_FOUND
             then ((st\<lparr>qualified := int (qualified_count wr + 1)\<rparr>,
                    \<lparr>qualified_count = qualified_count wr + 1,
                     total_processed = total_processed wr + 1,
                     written = written wr @ [e]\<rparr>), False)
             else ((st, wr\<lparr>total_processed := total_processed wr + 1\<rparr>), False)))"

section \<open>Filling the work queue (\<open>main\<close> of both drivers)\<close>

text \<open>\<open>xs[a:b]\<close> for \<open>a \<ge> 0\<close>; a negative \<open>b\<close> counts from the end.\<close>
definition py_slice :: "'a list \<Rightarrow> nat \<Rightarrow> int \<Rightarrow> 'a list" where
  "py_slice xs a b =
     (let n = int (length xs); e = (if b < 0 then max 0 (n + b) else min b n)
      in drop a (take (nat e) xs))"

text \<open>\<open>enumerate(xs, start=k)\<close>\<close>
definition enumerate_from :: "nat \<Rightarrow> 'a list \<Rightarrow> (nat \<times> 'a) list" where
  "enumerate_from k xs = zip [k ..< k + length xs] xs"

text \<open>
  The probate \<open>main\<close>: the queue it hands to the workers, \<open>None\<close> when it returns early with
  "No owners to process!".
\<close>
definition probate_queue :: "int \<Rightarrow> int \<Rightarrow> nat \<Rightarrow> string list \<Rightarrow> work_item option list option" where
  "probate_queue start_from_row end_at_row num_parallel_instances all_owners =
     (let start_idx = nat (max 0 (start_from_row - 1));
          end_idx = min (int (length all_owners)) end_at_row;
          owners_to_process = py_slice all_owners start_idx end_idx
      in if owners_to_process = [] then None
         else Some (map (\<lambda>(idx, raw). Some (idx, raw, parse_owner_name raw))
                        (enumerate_from (start_idx + 1) owners_to_process)
                    @ replicate num_parallel_instances None))"

text \<open>dallastax.py, \<open>load_owners_from_file\<close>, on the lines of the file.\<close>
definition load_owners_from_file :: "string list \<Rightarrow> int \<Rightarrow> int option \<Rightarrow> tax_item list" where
  "load_owners_from_file lines start_from_row end_at_row =
     (let data_lines = drop 2 lines;
          all_owners = concat (map (\<lambda>(idx, line). case split_ws line of
                                                      l # f # _ \<Rightarrow> [(idx, l, f)]
                                                    | _ \<Rightarrow> [])
                                   (enumerate_from 1 data_lines));
          all_owners = (if start_from_row > 1
                        then filter (\<lambda>ow. int (fst ow) \<ge> start_from_row) all_owners
                        else all_owners)
      in case end_at_row of
           None \<Rightarrow> all_owners
         | Some e \<Rightarrow> filter (\<lambda>ow. int (fst ow) \<le> e) all_owners)"

definition tax_queue :: "nat \<Rightarrow> tax_item list \<Rightarrow> tax_item option list option" where
  "tax_queue num_parallel_instances all_owners =
     (if all_owners = [] then None
      else Some (map Some all_owners @ replicate num_parallel_instances None))"

section \<open>Notions used to state the properties\<close>







text \<open>The bookkeeping of the pool proofs: which workers hold an item, work on one, are gone.\<close>
fun is_popped :: "'item worker \<Rightarrow> bool" where
  "is_popped (Popped item) = True"
| "is_popped _ = False"

fun is_busy :: "'item worker \<Rightarrow> bool" where
  "is_busy (Busy item) = True"
| "is_busy _ = False"

fun is_shut_down :: "'item worker \<Rightarrow> bool" where
  "is_shut_down ShutDown = True"
| "is_shut_down _ = False"

text \<open>The number of elements of a list with a property.\<close>
definition how_many :: "('a \<Rightarrow> bool) \<Rightarrow> 'a list \<Rightarrow> nat" where
  "how_many P xs = length (filter P xs)"

text \<open>A driver's item handler adds one to \<open>completed\<close> and takes one from \<open>in_progress\<close>, on every path.\<close>
definition counts_once :: "(nat \<Rightarrow> 'item \<Rightarrow> 'obs \<Rightarrow> 'out list \<times> int \<times> int \<times> int) \<Rightarrow> bool" where
  "counts_once process =
     (\<forall>w item page. fst (snd (process w item page)) = 1 \<and> snd (snd (snd (process w item page))) = - 1)"

text \<open>
  The invariant of a crash-free run of \<open>n_workers\<close> workers on \<open>n_items\<close> items after \<open>steps\<close>
  steps: the queue is a tail of the initial one (items, then pills), every item is in the
  queue, in a worker's hands or counted in \<open>completed\<close>, \<open>in_progress\<close> is the number of
  workers between their two locked blocks, every pill is in the queue or has shut down one
  worker, and the steps taken and the steps still to take add up to
  \<open>3 * n_items + n_workers\<close>.
\<close>
definition pool_inv :: "nat \<Rightarrow> nat \<Rightarrow> nat \<Rightarrow> ('item, 'out) pool \<Rightarrow> bool" where
  "pool_inv n_items n_workers steps s =
     (\<exists>items pills.
        work_queue s = map Some items @ replicate pills None
        \<and> (items \<noteq> [] \<longrightarrow> pills = n_workers)
        \<and> length (workers s) = n_workers
        \<and> completed (stats_dict s) + int (how_many is_popped (workers s))
            + int (how_many is_busy (workers s)) + int (length items) = int n_items
        \<and> in_progress (stats_dict s) = int (how_many is_busy (workers s))
        \<and> pills + how_many is_shut_down (workers s) = n_workers
        \<and> (\<forall>x \<in> set (workers s). x \<noteq> Drained \<and> x \<noteq> Crashed)
        \<and> steps + 3 * length items + pills + 2 * how_many is_popped (workers s)
            + how_many is_busy (workers s) = 3 * n_items + n_workers)"


section \<open>Sample pages and items\<close>

text \<open>Concrete inputs on which the theorems below are instantiated.\<close>

text \<open>A search without CAPTCHA whose result page never shows a marker.\<close>
definition slow_page :: attempt where
  "slow_page =
     \<lparr>fill_search = Inr (), detect_captcha = Inr (None, None), create_task = Inl ''unused'',
      task_polls = (\<lambda>a. Inl ''unused''), inject_token = Inr (), click_submit = Inr (),
      result_page = Inr (\<lambda>k. Body 0 ''Loading...''), party_cards = Some []\<rparr>"

text \<open>No property data for any owner: every property field of an entry is \<open>N/A\<close>.\<close>
definition no_properties :: "string \<rightharpoonup> (string \<rightharpoonup> string)" where
  "no_properties = Map.empty"

definition no_stats :: stats where
  "no_stats = \<lparr>completed = 0, qualified = 0, in_progress = 0\<rparr>"

definition open_will_case :: case_table where
  "open_will_case =
     Some [\<lparr>td_class = Some ''card-data party-case-type'', td_text = Some ''Decedent - Will ''\<rparr>,
           \<lparr>td_class = Some ''card-data party-case-status'', td_text = Some '' Open''\<rparr>]"

definition closed_case :: case_table where
  "closed_case =
     Some [\<lparr>td_class = Some ''card-data party-case-type'', td_text = Some ''Heirship''\<rparr>,
           \<lparr>td_class = Some ''card-data party-case-status'', td_text = Some ''Closed''\<rparr>]"

definition smith_card :: party_card where
  "smith_card = \<lparr>card_text = Some ''Smith, John'', case_tables = Some [closed_case, open_will_case, closed_case]\<rparr>"

text \<open>A card whose owner's name has an accented letter (e acute, U+00E9).\<close>
definition garcia_card :: party_card where
  "garcia_card = \<lparr>card_text = Some (''Garcia, Jos'' @ [CHR 0xE9]),
                   case_tables = Some [open_will_case]\<rparr>"

definition jones_card :: party_card where
  "jones_card = \<lparr>card_text = Some ''Jones, Ann'', case_tables = Some [open_will_case]\<rparr>"

text \<open>A result page with two cards after three empty polls, and one that reports no match.\<close>
definition found_page :: attempt where
  "found_page = slow_page\<lparr>result_page := Inr (\<lambda>k. if k < 3 then NoBody else Body 2 []),
                          party_cards := Some [jones_card, smith_card, smith_card]\<rparr>"

definition empty_page :: attempt where
  "empty_page = slow_page\<lparr>result_page := Inr (\<lambda>k. Body 0 ''No cases match your search'')\<rparr>"

definition smith_item :: work_item where
  "smith_item = (7, ''SMITH JOHN & MARY'', parse_owner_name ''SMITH JOHN & MARY'')"


text \<open>Every owner of the item meets the slow page.\<close>
definition slow_pages :: "nat \<Rightarrow> attempt" where
  "slow_pages = (\<lambda>owner_idx. slow_page)"

definition doe_item :: work_item where
  "doe_item = (3, ''DOE, JANE EST OF'', [(''JANE'', [], ''DOE'', ''DOE, JANE'')])"

text \<open>A pool whose only worker is working on an item, one pill left in the queue.\<close>
definition holding :: "'item \<Rightarrow> ('item, 'out) pool" where
  "holding item =
     \<lparr>work_queue = [None], results_queue = [],
      stats_dict = \<lparr>completed = 0, qualified = 0, in_progress = 1\<rparr>,
      workers = [Busy item]\<rparr>"

text \<open>A pool whose only worker waits at an empty queue with nothing in progress.\<close>
definition waiting :: "('item, 'out) pool" where
  "waiting = \<lparr>work_queue = [], results_queue = [], stats_dict = no_stats, workers = [Idle]\<rparr>"

definition fresh_writer :: writer where
  "fresh_writer = \<lparr>qualified_count = 0, total_processed = 0, written = []\<rparr>"

text \<open>The tax search finds a property and the append to the output file raises.\<close>
definition write_fails :: "string tax_page" where
  "write_fails = \<lparr>search_and_extract = Some ''00000123456'',
                  write_file = Inl ''No space left on device''\<rparr>"

definition tax_doe :: tax_item where
  "tax_doe = (900, ''DOE'', ''JANE'')"

text \<open>Vendor answers: a refused task, a created task, a task that never gets ready.\<close>
definition key_denied :: create_response where
  "key_denied = \<lparr>errorId = Some 1, errorDescription = Some ''ERROR_KEY_DENIED_ACCESS'',
                 taskId = None\<rparr>"

definition never_ready :: "nat \<Rightarrow> task_result raising" where
  "never_ready = (\<lambda>attempt. Inr \<lparr>task_status = Some ''processing'', solution = None\<rparr>)"

text \<open>A page with a CAPTCHA whose solving the vendor refuses.\<close>
definition captcha_pages :: "nat \<Rightarrow> attempt" where
  "captcha_pages =
     (\<lambda>owner_idx. slow_page\<lparr>detect_captcha := Inr (Some ''ReCaptchaV2TaskProxyLess'', Some ''6Lc''),
                              create_task := Inr key_denied, task_polls := never_ready\<rparr>)"

definition task_created :: create_response where
  "task_created = \<lparr>errorId = Some 0, errorDescription = None, taskId = Some ''task-1''\<rparr>"

definition amp_item :: work_item where
  "amp_item = (4, ''&'', [])"

definition found_pages :: "nat \<Rightarrow> attempt" where
  "found_pages = (\<lambda>owner_idx. found_page)"

definition tax_found :: "string tax_page" where
  "tax_found = \<lparr>search_and_extract = Some ''00000123456'', write_file = Inr ()\<rparr>"

text \<open>Two workers, two items: worker 1 takes the first item, worker 0 the second.\<close>
definition probate_schedule :: "(nat \<times> (nat \<Rightarrow> attempt) action) list" where
  "probate_schedule =
     [(1, Run slow_pages), (0, Run slow_pages), (0, Run slow_pages), (1, Run slow_pages),
      (0, Run found_pages), (0, Run slow_pages), (1, Run found_pages), (1, Run slow_pages)]"

definition tax_schedule :: "(nat \<times> string tax_page action) list" where
  "tax_schedule =
     [(0, Run tax_found), (1, Run tax_found), (0, Run tax_found), (0, Run write_fails),
      (0, Run tax_found), (1, Run tax_found), (1, Run tax_found), (1, Run tax_found)]"

text \<open>Input extracts of the two drivers.\<close>
definition probate_owners :: "string list" where
  "probate_owners = [''SMITH JOHN & MARY EST OF'', ''ROE RICHARD'', ''DOE, JANE EST OF'', ''&'']"

definition tax_lines :: "string list" where
  "tax_lines = [''LAST FIRST'', ''----------'', ''DOE JANE EST OF'', ''MALFORMED'', ''ROE RICHARD'']"

section \<open>Properties of the polling loops\<close>

lemma poll_task_exhausted:
  "(\<forall>a. k \<le> a \<and> a < k + n \<longrightarrow> (\<exists>d. poll a = Inr d \<and> task_status d \<noteq> Some ''ready''))
   \<Longrightarrow> poll_task poll k n = Inr None"
proof (induction n arbitrary: k)
  case 0
  then show ?case by simp
next
  case (Suc n)
  have "k \<le> k \<and> k < k + Suc n" by simp
  with Suc.prems obtain d where d: "poll k = Inr d" "task_status d \<noteq> Some ''ready''"
    by blast
  have "poll_task poll (Suc k) n = Inr None"
  proof (rule Suc.IH, intro allI impI)
    fix a assume "Suc k \<le> a \<and> a < Suc k + n"
    then have "k \<le> a \<and> a < k + Suc n" by simp
    with Suc.prems show "\<exists>d. poll a = Inr d \<and> task_status d \<noteq> Some ''ready''" by blast
  qed
  with d show ?case by simp
qed

lemma solve_never_raises: "\<exists>r. solve timeout created poll = Inr r"
  by (simp add: solve_def split: sum.splits)

lemma checkResults_timeout_from:
  assumes "a < maxAttempts"
    and "\<forall>k. a < k \<and> k \<le> maxAttempts \<longrightarrow>
             (case doc k of NoBody \<Rightarrow> True | Body n text \<Rightarrow> n = 0 \<and> \<not> no_results_text text)"
  shows "checkResults doc a = (False, 0)"
  using assms
proof (induction "maxAttempts - a" arbitrary: a)
  case 0
  then show ?case by simp
next
  case (Suc m)
  have here: "case doc (Suc a) of NoBody \<Rightarrow> True
                | Body n text \<Rightarrow> n = 0 \<and> \<not> no_results_text text"
    using Suc.prems by simp
  show ?case
  proof (cases "Suc a < maxAttempts")
    case True
    have "m = maxAttempts - Suc a" using Suc.hyps(2) by simp
    moreover have "\<forall>k. Suc a < k \<and> k \<le> maxAttempts \<longrightarrow>
             (case doc k of NoBody \<Rightarrow> True | Body n text \<Rightarrow> n = 0 \<and> \<not> no_results_text text)"
      using Suc.prems(2) by simp
    ultimately have rec: "checkResults doc (Suc a) = (False, 0)"
      using Suc.hyps(1) True by blast
    show ?thesis
      using here rec True
      by (subst checkResults.simps) (auto split: dom_state.splits)
  next
    case False
    show ?thesis
      using here False
      by (subst checkResults.simps) (auto split: dom_state.splits)
  qed
qed

section \<open>Properties of the loop over the owners of one item\<close>

lemma attempt_owner_facts:
  assumes "attempt_owner lbl raw props page ow failed = (entry, failed')"
  shows "failed' = (failed \<or> disqualifying_probate_found entry)"
    and "overall_property_failed entry = failed'"
    and "disqualifying_probate_found entry = (status entry = DISQUALIFIED)"
  using assms
  by (auto simp: attempt_owner_def Let_def split: prod.splits sum.splits search_result.splits if_splits)

lemma process_owners_Cons:
  assumes "attempt_owner (label k) raw props (pages k) ow failed = (entry, f1)"
    and "process_owners label raw props pages (Suc k) rest f1 = (es, f2)"
  shows "process_owners label raw props pages k (ow # rest) failed = (entry # es, f2)"
  using assms by simp

lemma process_owners_length:
  "process_owners label raw props pages k owners failed = (entries, final)
     \<Longrightarrow> length entries = length owners"
proof (induction owners arbitrary: k failed entries final)
  case Nil
  then show ?case by simp
next
  case (Cons ow rest)
  obtain entry f1 where a: "attempt_owner (label k) raw props (pages k) ow failed = (entry, f1)"
    by (cases "attempt_owner (label k) raw props (pages k) ow failed")
  obtain es f2 where r: "process_owners label raw props pages (Suc k) rest f1 = (es, f2)"
    by (cases "process_owners label raw props pages (Suc k) rest f1")
  from process_owners_Cons[OF a r] Cons.prems have "entries = entry # es" by simp
  with Cons.IH[OF r] show ?case by simp
qed

lemma process_owners_nth:
  "i < length owners \<Longrightarrow>
     \<exists>failed'. fst (process_owners label raw props pages k owners failed) ! i
              = fst (attempt_owner (label (k + i)) raw props (pages (k + i)) (owners ! i) failed')"
proof (induction owners arbitrary: k failed i)
  case Nil
  then show ?case by simp
next
  case (Cons ow rest)
  obtain entry f1 where a: "attempt_owner (label k) raw props (pages k) ow failed = (entry, f1)"
    by (cases "attempt_owner (label k) raw props (pages k) ow failed")
  obtain es f2 where r: "process_owners label raw props pages (Suc k) rest f1 = (es, f2)"
    by (cases "process_owners label raw props pages (Suc k) rest f1")
  note eq = process_owners_Cons[OF a r]
  show ?case
  proof (cases i)
    case 0
    have "fst (process_owners label raw props pages k (ow # rest) failed) ! 0
            = fst (attempt_owner (label (k + 0)) raw props (pages (k + 0)) ((ow # rest) ! 0) failed)"
      using eq a by simp
    with 0 show ?thesis by blast
  next
    case (Suc j)
    with Cons.prems have "j < length rest" by simp
    from Cons.IH[OF this, of "Suc k" f1] obtain f' where
      "fst (process_owners label raw props pages (Suc k) rest f1) ! j
         = fst (attempt_owner (label (Suc k + j)) raw props (pages (Suc k + j)) (rest ! j) f')"
      by blast
    with r eq Suc have "fst (process_owners label raw props pages k (ow # rest) failed) ! i
         = fst (attempt_owner (label (k + i)) raw props (pages (k + i)) ((ow # rest) ! i) f')"
      by simp
    then show ?thesis by blast
  qed
qed

lemma process_owners_aggregate:
  assumes "process_owners label raw props pages k owners failed = (entries, final)"
  shows "final = (failed \<or> (\<exists>e \<in> set entries. disqualifying_probate_found e))
         \<and> (entries \<noteq> [] \<longrightarrow> overall_property_failed (last entries) = final)
         \<and> (\<forall>e \<in> set entries. disqualifying_probate_found e = (status e = DISQUALIFIED))"
  using assms
proof (induction owners arbitrary: k failed entries final)
  case Nil
  then show ?case by simp
next
  case (Cons ow rest)
  obtain entry f1 where a: "attempt_owner (label k) raw props (pages k) ow failed = (entry, f1)"
    by (cases "attempt_owner (label k) raw props (pages k) ow failed")
  obtain es f2 where r: "process_owners label raw props pages (Suc k) rest f1 = (es, f2)"
    by (cases "process_owners label raw props pages (Suc k) rest f1")
  note af = attempt_owner_facts[OF a]
  from process_owners_Cons[OF a r] Cons.prems have eq: "entries = entry # es" "final = f2"
    by simp_all
  note ih = Cons.IH[OF r]
  have 1: "final = (failed \<or> (\<exists>e \<in> set entries. disqualifying_probate_found e))"
    using ih af(1) eq by auto
  have 2: "overall_property_failed (last entries) = final"
  proof (cases "es = []")
    case True
    with ih have "f2 = f1" by simp
    with True eq af(2) show ?thesis by simp
  next
    case False
    with ih eq show ?thesis by simp
  qed
  have 3: "\<forall>e \<in> set entries. disqualifying_probate_found e = (status e = DISQUALIFIED)"
    using ih af(3) eq by simp
  from 1 2 3 show ?case by simp
qed

lemma process_owners_running:
  assumes "process_owners label raw props pages k owners failed = (entries, final)"
    and "i < length entries"
  shows "overall_property_failed (entries ! i)
           = (failed \<or> (\<exists>j \<le> i. disqualifying_probate_found (entries ! j)))"
  using assms
proof (induction owners arbitrary: k failed entries final i)
  case Nil
  then show ?case by simp
next
  case (Cons ow rest)
  obtain entry f1 where a: "attempt_owner (label k) raw props (pages k) ow failed = (entry, f1)"
    by (cases "attempt_owner (label k) raw props (pages k) ow failed")
  obtain es f2 where r: "process_owners label raw props pages (Suc k) rest f1 = (es, f2)"
    by (cases "process_owners label raw props pages (Suc k) rest f1")
  note af = attempt_owner_facts[OF a]
  from process_owners_Cons[OF a r] Cons.prems(1) have eq: "entries = entry # es" by simp
  show ?case
  proof (cases i)
    case 0
    with eq af show ?thesis by simp
  next
    case (Suc m)
    with Cons.prems(2) eq have m: "m < length es" by simp
    from Cons.IH[OF r m]
    have ih: "overall_property_failed (es ! m)
                = (f1 \<or> (\<exists>j \<le> m. disqualifying_probate_found (es ! j)))" .
    have split: "(\<exists>j \<le> Suc m. disqualifying_probate_found ((entry # es) ! j))
                   = (disqualifying_probate_found entry
                      \<or> (\<exists>j \<le> m. disqualifying_probate_found (es ! j)))"
    proof
      assume "\<exists>j \<le> Suc m. disqualifying_probate_found ((entry # es) ! j)"
      then obtain j where j: "j \<le> Suc m" "disqualifying_probate_found ((entry # es) ! j)"
        by blast
      then show "disqualifying_probate_found entry
                      \<or> (\<exists>j \<le> m. disqualifying_probate_found (es ! j))"
        by (cases j) auto
    next
      assume "disqualifying_probate_found entry
                      \<or> (\<exists>j \<le> m. disqualifying_probate_found (es ! j))"
      then show "\<exists>j \<le> Suc m. disqualifying_probate_found ((entry # es) ! j)"
      proof
        assume "disqualifying_probate_found entry"
        then have "0 \<le> Suc m \<and> disqualifying_probate_found ((entry # es) ! 0)" by simp
        then show ?thesis by blast
      next
        assume "\<exists>j \<le> m. disqualifying_probate_found (es ! j)"
        then obtain j where "j \<le> m" "disqualifying_probate_found (es ! j)" by blast
        then have "Suc j \<le> Suc m \<and> disqualifying_probate_found ((entry # es) ! Suc j)" by simp
        then show ?thesis by blast
      qed
    qed
    from ih af(1) split Suc eq show ?thesis by auto
  qed
qed

section \<open>Properties of the scan of the result cards\<close>













lemma upper_accented:
  "upper (''Jos'' @ [CHR 0xE9]) = ''JOS'' @ [CHR 0xC9]
   \<and> upper (''Stra'' @ [CHR 0xDF] @ ''e'') = ''STRASSE''"
  by code_simp

lemma accented_name_matches:
  "fst (process_search_results (Some [garcia_card]) (''Jos'' @ [CHR 0xE9]) [] ''Garcia'')"
  by code_simp


section \<open>Properties of the worker pool\<close>

lemma how_many_update:
  "i < length xs \<Longrightarrow>
     how_many P (xs[i := y]) + (if P (xs ! i) then 1 else 0) = how_many P xs + (if P y then 1 else 0)"
  unfolding how_many_def
proof (induction xs arbitrary: i)
  case Nil
  then show ?case by simp
next
  case (Cons x xs)
  show ?case
  proof (cases i)
    case 0
    then show ?thesis by simp
  next
    case (Suc j)
    with Cons.prems have "j < length xs" by simp
    from Cons.IH[OF this] Suc show ?thesis by simp
  qed
qed

lemma how_many_all: "how_many P xs = length xs \<Longrightarrow> x \<in> set xs \<Longrightarrow> P x"
  unfolding how_many_def
proof (induction xs)
  case Nil
  then show ?case by simp
next
  case (Cons y ys)
  have le: "length (filter P ys) \<le> length ys" by (rule length_filter_le)
  show ?case
  proof (cases "P y")
    case True
    with Cons show ?thesis by auto
  next
    case False
    with Cons.prems le show ?thesis by simp
  qed
qed

lemma how_many_none: "\<forall>x \<in> set xs. \<not> P x \<Longrightarrow> how_many P xs = 0"
  by (simp add: how_many_def)

lemma how_many_full: "\<forall>x \<in> set xs. P x \<Longrightarrow> how_many P xs = length xs"
  by (simp add: how_many_def)

lemma set_update_no:
  "\<forall>x \<in> set xs. Q x \<Longrightarrow> Q y \<Longrightarrow> \<forall>x \<in> set (xs[i := y]). Q x"
  by (metis insert_iff set_update_subset_insert subsetD)

lemma pool_inv_start:
  "pool_inv (length items) n 0 (start_pool (map Some items @ replicate n None) n)"
  unfolding pool_inv_def start_pool_def
  by (rule exI[of _ items], rule exI[of _ n]) (simp add: how_many_def)

lemma queue_shape_Nil:
  "map Some items @ replicate pills None = [] \<Longrightarrow> items = [] \<and> pills = 0"
  by simp

lemma queue_shape_pill:
  "map Some items @ replicate pills None = None # q
     \<Longrightarrow> items = [] \<and> (\<exists>p. pills = Suc p \<and> q = replicate p None)"
  by (cases items; cases pills) auto

lemma queue_shape_item:
  "map Some items @ replicate pills None = Some item # q
     \<Longrightarrow> \<exists>rest. items = item # rest \<and> q = map Some rest @ replicate pills None"
  by (cases items; cases pills) auto

lemma pool_inv_never_empty:
  assumes inv: "pool_inv n_items n_workers k s"
    and w: "w < length (workers s)" and live: "\<not> is_shut_down (workers s ! w)"
  shows "work_queue s \<noteq> []"
proof
  assume e: "work_queue s = []"
  from inv obtain items pills where
    q: "work_queue s = map Some items @ replicate pills None"
    and len: "length (workers s) = n_workers"
    and sd: "pills + how_many is_shut_down (workers s) = n_workers"
    unfolding pool_inv_def by blast
  from q e have "pills = 0" by simp
  with sd len have "how_many is_shut_down (workers s) = length (workers s)" by simp
  from how_many_all[OF this, of "workers s ! w"] w have "is_shut_down (workers s ! w)" by simp
  with live show False by simp
qed

lemma pool_inv_step:
  assumes inv: "pool_inv n_items n_workers k s"
    and once: "counts_once process"
    and step: "worker_step process w (Run page) s = Some s'"
  shows "pool_inv n_items n_workers (Suc k) s'"
proof -
  from step have w: "w < length (workers s)"
    by (auto simp: worker_step_def split: if_splits)
  from inv obtain items pills where
    q: "work_queue s = map Some items @ replicate pills None"
    and full: "items \<noteq> [] \<longrightarrow> pills = n_workers"
    and len: "length (workers s) = n_workers"
    and cons: "completed (stats_dict s) + int (how_many is_popped (workers s))
            + int (how_many is_busy (workers s)) + int (length items) = int n_items"
    and prog: "in_progress (stats_dict s) = int (how_many is_busy (workers s))"
    and sd: "pills + how_many is_shut_down (workers s) = n_workers"
    and alive: "\<forall>x \<in> set (workers s). x \<noteq> Drained \<and> x \<noteq> Crashed"
    and mu: "k + 3 * length items + pills + 2 * how_many is_popped (workers s)
            + how_many is_busy (workers s) = 3 * n_items + n_workers"
    unfolding pool_inv_def by blast
  note upP = how_many_update[OF w, of is_popped]
  note upB = how_many_update[OF w, of is_busy]
  note upS = how_many_update[OF w, of is_shut_down]
  show ?thesis
  proof (cases "workers s ! w")
    case Idle
    then have "\<not> is_shut_down (workers s ! w)" by simp
    from pool_inv_never_empty[OF inv w this] obtain x queue where qq: "work_queue s = x # queue"
      by (cases "work_queue s") auto
    show ?thesis
    proof (cases x)
      case None
      from q qq None queue_shape_pill[of items pills queue]
      obtain p where sh: "items = []" "pills = Suc p" "queue = replicate p None" by auto
      from step Idle qq None w
      have s': "s' = s\<lparr>work_queue := queue, workers := (workers s)[w := ShutDown]\<rparr>"
        by (simp add: worker_step_def)
      have cP: "how_many is_popped (workers s') = how_many is_popped (workers s)"
        using upP[of ShutDown] Idle s' by simp
      have cB: "how_many is_busy (workers s') = how_many is_busy (workers s)"
        using upB[of ShutDown] Idle s' by simp
      have cS: "how_many is_shut_down (workers s') = Suc (how_many is_shut_down (workers s))"
        using upS[of ShutDown] Idle s' by simp
      have al: "\<forall>x \<in> set (workers s'). x \<noteq> Drained \<and> x \<noteq> Crashed"
        unfolding s' using set_update_no[OF alive, of ShutDown w] by simp
      show ?thesis
        unfolding pool_inv_def
        apply (rule exI[of _ "[]"], rule exI[of _ p])
        using sh cons prog sd mu len cP cB cS al s' by simp
    next
      case (Some item)
      from q qq Some queue_shape_item[of items pills item queue]
      obtain rest where sh: "items = item # rest" "queue = map Some rest @ replicate pills None"
        by auto
      with full have pw: "pills = n_workers" by simp
      from step Idle qq Some w
      have s': "s' = s\<lparr>work_queue := queue, workers := (workers s)[w := Popped item]\<rparr>"
        by (simp add: worker_step_def)
      have cP: "how_many is_popped (workers s') = Suc (how_many is_popped (workers s))"
        using upP[of "Popped item"] Idle s' by simp
      have cB: "how_many is_busy (workers s') = how_many is_busy (workers s)"
        using upB[of "Popped item"] Idle s' by simp
      have cS: "how_many is_shut_down (workers s') = how_many is_shut_down (workers s)"
        using upS[of "Popped item"] Idle s' by simp
      have al: "\<forall>x \<in> set (workers s'). x \<noteq> Drained \<and> x \<noteq> Crashed"
        unfolding s' using set_update_no[OF alive, of "Popped item" w] by simp
      show ?thesis
        unfolding pool_inv_def
        apply (rule exI[of _ rest], rule exI[of _ pills])
        using sh pw cons prog sd mu len cP cB cS al s' by simp
    qed
  next
    case (Popped item)
    from step Popped w
    have s': "s' = s\<lparr>stats_dict := (stats_dict s)\<lparr>in_progress := in_progress (stats_dict s) + 1\<rparr>,
                      workers := (workers s)[w := Busy item]\<rparr>"
      by (simp add: worker_step_def)
    have cP: "Suc (how_many is_popped (workers s')) = how_many is_popped (workers s)"
      using upP[of "Busy item"] Popped s' by simp
    have cB: "how_many is_busy (workers s') = Suc (how_many is_busy (workers s))"
      using upB[of "Busy item"] Popped s' by simp
    have cS: "how_many is_shut_down (workers s') = how_many is_shut_down (workers s)"
      using upS[of "Busy item"] Popped s' by simp
    have al: "\<forall>x \<in> set (workers s'). x \<noteq> Drained \<and> x \<noteq> Crashed"
      unfolding s' using set_update_no[OF alive, of "Busy item" w] by simp
    show ?thesis
      unfolding pool_inv_def
      apply (rule exI[of _ items], rule exI[of _ pills])
      using q full cons prog sd mu len cP cB cS al s' by simp
  next
    case (Busy item)
    obtain outs dc dq dp where pr: "process w item page = (outs, dc, dq, dp)"
      by (cases "process w item page") auto
    with once have d: "dc = 1" "dp = - 1"
      unfolding counts_once_def by (metis fst_conv snd_conv)+
    from step Busy w pr d
    have s': "s' = s\<lparr>results_queue := results_queue s @ outs,
                      stats_dict := \<lparr>completed = completed (stats_dict s) + 1,
                                     qualified = qualified (stats_dict s) + dq,
                                     in_progress = in_progress (stats_dict s) + - 1\<rparr>,
                      workers := (workers s)[w := Idle]\<rparr>"
      by (simp add: worker_step_def)
    have cP: "how_many is_popped (workers s') = how_many is_popped (workers s)"
      using upP[of Idle] Busy s' by simp
    have cB: "Suc (how_many is_busy (workers s')) = how_many is_busy (workers s)"
      using upB[of Idle] Busy s' by simp
    have cS: "how_many is_shut_down (workers s') = how_many is_shut_down (workers s)"
      using upS[of Idle] Busy s' by simp
    have al: "\<forall>x \<in> set (workers s'). x \<noteq> Drained \<and> x \<noteq> Crashed"
      unfolding s' using set_update_no[OF alive, of Idle w] by simp
    show ?thesis
      unfolding pool_inv_def
      apply (rule exI[of _ items], rule exI[of _ pills])
      using q full cons prog sd mu len cP cB cS al s' by simp
  next
    case ShutDown
    with step w show ?thesis by (simp add: worker_step_def)
  next
    case Drained
    with step w show ?thesis by (simp add: worker_step_def)
  next
    case Crashed
    with step w show ?thesis by (simp add: worker_step_def)
  qed
qed

lemma crash_free_Cons: "crash_free ((w, act) # sched) = (\<not> is_crash act \<and> crash_free sched)"
  by (simp add: crash_free_def)

lemma run_inv:
  "pool_inv n_items n_workers k s \<Longrightarrow> counts_once process \<Longrightarrow> crash_free sched
     \<Longrightarrow> run process sched s = Some s'
     \<Longrightarrow> pool_inv n_items n_workers (k + length sched) s'"
proof (induction sched arbitrary: k s)
  case Nil
  then show ?case by simp
next
  case (Cons e sched)
  obtain w act where e: "e = (w, act)" by (cases e)
  with Cons.prems(3) have nc: "\<not> is_crash act" and cf: "crash_free sched"
    by (simp_all add: crash_free_Cons)
  from nc obtain page where act: "act = Run page" by (cases act) auto
  from Cons.prems(4) e obtain s1 where
    st: "worker_step process w act s = Some s1" and rest: "run process sched s1 = Some s'"
    by (auto split: option.splits)
  from pool_inv_step[OF Cons.prems(1) Cons.prems(2) st[unfolded act]]
  have "pool_inv n_items n_workers (Suc k) s1" .
  from Cons.IH[OF this Cons.prems(2) cf rest] show ?case by simp
qed

lemma ended_not_working: "ended x \<Longrightarrow> \<not> is_popped x \<and> \<not> is_busy x"
  by (cases x) auto

lemma ended_alive_shut_down: "ended x \<Longrightarrow> x \<noteq> Drained \<Longrightarrow> x \<noteq> Crashed \<Longrightarrow> x = ShutDown"
  by (cases x) auto

lemma pool_inv_terminated:
  assumes inv: "pool_inv n_items n_workers k s" and pos: "0 < n_workers" and fin: "terminated s"
  shows "completed (stats_dict s) = int n_items \<and> in_progress (stats_dict s) = 0
         \<and> work_queue s = [] \<and> workers s = replicate n_workers ShutDown
         \<and> k = 3 * n_items + n_workers"
proof -
  from inv obtain items pills where
    q: "work_queue s = map Some items @ replicate pills None"
    and full: "items \<noteq> [] \<longrightarrow> pills = n_workers"
    and len: "length (workers s) = n_workers"
    and cons: "completed (stats_dict s) + int (how_many is_popped (workers s))
            + int (how_many is_busy (workers s)) + int (length items) = int n_items"
    and prog: "in_progress (stats_dict s) = int (how_many is_busy (workers s))"
    and sd: "pills + how_many is_shut_down (workers s) = n_workers"
    and alive: "\<forall>x \<in> set (workers s). x \<noteq> Drained \<and> x \<noteq> Crashed"
    and mu: "k + 3 * length items + pills + 2 * how_many is_popped (workers s)
            + how_many is_busy (workers s) = 3 * n_items + n_workers"
    unfolding pool_inv_def by blast
  from fin have en: "\<forall>x \<in> set (workers s). ended x"
    by (simp add: terminated_def list_all_iff)
  with alive have all: "\<forall>x \<in> set (workers s). x = ShutDown"
    using ended_alive_shut_down by blast
  then have ws: "workers s = replicate n_workers ShutDown"
    using len by (metis replicate_length_same)
  have cP: "how_many is_popped (workers s) = 0"
    by (rule how_many_none) (use all in auto)
  have cB: "how_many is_busy (workers s) = 0"
    by (rule how_many_none) (use all in auto)
  have "\<forall>x \<in> set (workers s). is_shut_down x" using all by auto
  from how_many_full[OF this] len have cS: "how_many is_shut_down (workers s) = n_workers"
    by simp
  with sd have p0: "pills = 0" by simp
  with full pos have i0: "items = []" by auto
  from cons prog mu q cP cB p0 i0 ws show ?thesis by simp
qed

lemma pool_inv_bound: "pool_inv n_items n_workers k s \<Longrightarrow> k \<le> 3 * n_items + n_workers"
  unfolding pool_inv_def by auto

lemma pool_inv_progress:
  assumes inv: "pool_inv n_items n_workers k s" and nt: "\<not> terminated s"
  shows "\<exists>w < n_workers. \<forall>page. \<exists>s'. worker_step process w (Run page) s = Some s'
                                        \<and> workers s' ! w \<noteq> workers s ! w"
proof -
  from inv have len: "length (workers s) = n_workers"
    unfolding pool_inv_def by blast
  from nt obtain x where "x \<in> set (workers s)" "\<not> ended x"
    by (auto simp: terminated_def list_all_iff)
  then obtain w where w: "w < length (workers s)" and live: "\<not> ended (workers s ! w)"
    by (metis in_set_conv_nth)
  have "\<exists>s'. worker_step process w (Run page) s = Some s' \<and> workers s' ! w \<noteq> workers s ! w"
    for page
  proof (cases "workers s ! w")
    case Idle
    then have "\<not> is_shut_down (workers s ! w)" by simp
    from pool_inv_never_empty[OF inv w this] obtain x queue where "work_queue s = x # queue"
      by (cases "work_queue s") auto
    with Idle w show ?thesis
      by (cases x) (simp_all add: worker_step_def)
  next
    case (Popped item)
    with w show ?thesis by (simp add: worker_step_def)
  next
    case (Busy item)
    with w show ?thesis by (simp add: worker_step_def split: prod.splits)
  next
    case ShutDown
    with live show ?thesis by simp
  next
    case Drained
    with live show ?thesis by simp
  next
    case Crashed
    with live show ?thesis by simp
  qed
  with w len show ?thesis by blast
qed

lemma probate_counts_once: "counts_once (probate_process property_data_dict)"
  by (simp add: counts_once_def probate_process_def)

lemma tax_counts_once: "counts_once tax_process"
  by (auto simp: counts_once_def tax_process_def split: prod.splits option.splits sum.splits)

lemma enumerate_from_fst: "map fst (enumerate_from k xs) = [k ..< k + length xs]"
  by (simp add: enumerate_from_def)

lemma enumerate_from_snd: "map snd (enumerate_from k xs) = xs"
  by (simp add: enumerate_from_def)

lemma probate_queue_shape:
  assumes "probate_queue start_from_row end_at_row n all_owners = Some queue"
  shows "\<exists>items. queue = map Some items @ replicate n None \<and> items \<noteq> []
           \<and> sorted_wrt (<) (map fst items)
           \<and> map (fst \<circ> snd) items
               = py_slice all_owners (nat (max 0 (start_from_row - 1)))
                                     (min (int (length all_owners)) end_at_row)
           \<and> (\<forall>it \<in> set items. snd (snd it) = parse_owner_name (fst (snd it)))"
proof -
  define start_idx where "start_idx = nat (max 0 (start_from_row - 1))"
  define todo where
    "todo = py_slice all_owners start_idx (min (int (length all_owners)) end_at_row)"
  define items where
    "items = map (\<lambda>(idx, raw). (idx, raw, parse_owner_name raw)) (enumerate_from (start_idx + 1) todo)"
  from assms have ne: "todo \<noteq> []" and q: "queue = map Some items @ replicate n None"
    by (auto simp: probate_queue_def Let_def start_idx_def todo_def items_def o_def
                   case_prod_unfold split: if_splits)
  have f: "map fst items = [start_idx + 1 ..< start_idx + 1 + length todo]"
    unfolding items_def using enumerate_from_fst[of "start_idx + 1" todo]
    by (simp add: o_def case_prod_unfold)
  have s: "map (fst \<circ> snd) items = todo"
    unfolding items_def using enumerate_from_snd[of "start_idx + 1" todo]
    by (simp add: o_def case_prod_unfold)
  have p: "\<forall>it \<in> set items. snd (snd it) = parse_owner_name (fst (snd it))"
    unfolding items_def by auto
  have so: "sorted_wrt (<) (map fst items)"
    by (simp only: f sorted_wrt_upt)
  from ne s have "items \<noteq> []" by auto
  with q so s p show ?thesis
    unfolding start_idx_def todo_def by (intro exI[of _ items]) simp
qed

lemma short_sorted: "length xs \<le> 1 \<Longrightarrow> sorted_wrt P xs"
  by (cases xs) auto

lemma concat_rows_sorted:
  assumes key: "\<And>idx line e. e \<in> set (g (idx, line)) \<Longrightarrow> fst e = idx"
    and short: "\<And>p. length (g p) \<le> 1"
  shows "sorted_wrt (<) (map fst (concat (map g (enumerate_from k xs))))
         \<and> (\<forall>e \<in> set (concat (map g (enumerate_from k xs))). k \<le> fst e)"
proof (induction xs arbitrary: k)
  case Nil
  then show ?case by (simp add: enumerate_from_def)
next
  case (Cons line rest)
  have "[k ..< k + length (line # rest)] = k # [Suc k ..< Suc k + length rest]"
    by (simp add: upt_conv_Cons del: upt_Suc)
  then have e: "enumerate_from k (line # rest) = (k, line) # enumerate_from (Suc k) rest"
    by (simp only: enumerate_from_def zip_Cons_Cons)
  let ?tl = "concat (map g (enumerate_from (Suc k) rest))"
  from Cons.IH[of "Suc k"] have ih1: "sorted_wrt (<) (map fst ?tl)"
    and ih2: "\<forall>e \<in> set ?tl. Suc k \<le> fst e" by blast+
  have hd_sorted: "sorted_wrt (<) (map fst (g (k, line)))"
    by (rule short_sorted) (use short[of "(k, line)"] in simp)
  have cross: "\<forall>x \<in> set (map fst (g (k, line))). \<forall>y \<in> set (map fst ?tl). x < y"
    using key[of _ k line] ih2 by fastforce
  have "sorted_wrt (<) (map fst (g (k, line)) @ map fst ?tl)"
    using hd_sorted ih1 cross by (simp only: sorted_wrt_append)
  moreover have "\<forall>e \<in> set (g (k, line) @ ?tl). k \<le> fst e"
    using key[of _ k line] ih2 by fastforce
  ultimately show ?case unfolding e by simp
qed

lemma tax_rows_sorted:
  "sorted_wrt (<) (map fst (concat (map (\<lambda>(idx, line). case split_ws line of
                                              l # f # _ \<Rightarrow> [(idx, l, f)] | _ \<Rightarrow> [])
                                         (enumerate_from k data_lines))))"
proof -
  let ?g = "\<lambda>(idx :: nat, line). case split_ws line of l # f # _ \<Rightarrow> [(idx, l, f)] | _ \<Rightarrow> []"
  have "\<And>idx line e. e \<in> set (?g (idx, line)) \<Longrightarrow> fst e = idx"
    by (auto split: list.splits)
  moreover have "\<And>p. length (?g p) \<le> 1"
    by (auto split: list.splits prod.splits)
  ultimately show ?thesis
    using concat_rows_sorted[of ?g k data_lines] by blast
qed

lemma sorted_rows_filter:
  "sorted_wrt (<) (map fst xs) \<Longrightarrow> sorted_wrt (<) (map fst (filter P xs))"
  by (induction xs) auto

lemma load_owners_sorted:
  "sorted_wrt (<) (map fst (load_owners_from_file lines start_from_row end_at_row))"
proof -
  define rows where
    "rows = concat (map (\<lambda>(idx, line). case split_ws line of
                                          l # f # _ \<Rightarrow> [(idx, l, f)] | _ \<Rightarrow> [])
                        (enumerate_from 1 (drop 2 lines)))"
  define started where
    "started = (if start_from_row > 1
                then filter (\<lambda>ow. int (fst ow) \<ge> start_from_row) rows else rows)"
  have base: "sorted_wrt (<) (map fst rows)"
    unfolding rows_def using tax_rows_sorted[of 1 "drop 2 lines"] by blast
  then have st: "sorted_wrt (<) (map fst started)"
    unfolding started_def by (simp add: sorted_rows_filter)
  have "load_owners_from_file lines start_from_row end_at_row
          = (case end_at_row of None \<Rightarrow> started
             | Some e \<Rightarrow> filter (\<lambda>ow. int (fst ow) \<le> e) started)"
    unfolding load_owners_from_file_def Let_def started_def rows_def by (rule refl)
  with st show ?thesis
    by (cases end_at_row) (simp_all add: sorted_rows_filter)
qed

lemma tax_queue_shape:
  assumes "tax_queue n (load_owners_from_file lines start_from_row end_at_row) = Some queue"
  shows "\<exists>items. queue = map Some items @ replicate n None \<and> items \<noteq> []
           \<and> items = load_owners_from_file lines start_from_row end_at_row
           \<and> sorted_wrt (<) (map fst items)"
  using assms load_owners_sorted[of lines start_from_row end_at_row]
  by (auto simp: tax_queue_def split: if_splits)

section \<open>Steps of a worker that holds an item\<close>

lemma busy_step:
  assumes "w < length (workers s)" and "workers s ! w = Busy item"
  shows "worker_step process w (Run page) s
           = Some (s\<lparr>results_queue := results_queue s @ fst (process w item page),
                     stats_dict := \<lparr>completed = completed (stats_dict s) + fst (snd (process w item page)),
                                    qualified = qualified (stats_dict s) + fst (snd (snd (process w item page))),
                                    in_progress = in_progress (stats_dict s) + snd (snd (snd (process w item page)))\<rparr>,
                     workers := (workers s)[w := Idle]\<rparr>)"
  using assms by (simp add: worker_step_def split: prod.splits)

lemma parse_ampersand: "parse_owner_name ''&'' = []"
  by code_simp

lemma parse_lonely_surname: "parse_owner_name ''SMITH &'' = []"
  by code_simp

lemma search_owner_timeout:
  assumes "fill_search page = Inr ()"
    and "detect_captcha page = Inr (captcha_type, site_key)"
    and "captcha_type = None \<or> captcha_type = Some []
         \<or> (\<exists>token. solve_captcha (create_task page) (task_polls page) = Inr token
                     \<and> inject_token page = Inr ())"
    and "click_submit page = Inr ()"
    and "result_page page = Inr doc"
    and "checkResults doc 0 = (False, 0)"
  shows "search_owner page ow = Inr SearchTimeout"
  using assms
  by (cases ow) (auto simp: search_owner_def wait_for_results_def)

lemma attempt_owner_on_timeout:
  assumes "search_owner page ow = Inr SearchTimeout"
  shows "status (fst (attempt_owner lbl raw props page ow failed)) = TIMEOUT
         \<and> count (fst (attempt_owner lbl raw props page ow failed)) = 0
         \<and> \<not> disqualifying_probate_found (fst (attempt_owner lbl raw props page ow failed))"
  using assms by (cases ow) (simp add: attempt_owner_def)

lemma process_item_nth:
  assumes "i < length parsed_owners"
  shows "\<exists>failed. fst (process_item property_data_dict (original_row, raw, parsed_owners) pages) ! i
          = fst (attempt_owner (owner_label original_row (length parsed_owners) i) raw
                   (property_fields property_data_dict raw) (pages i) (parsed_owners ! i) failed)"
  using process_owners_nth[OF assms, of "owner_label original_row (length parsed_owners)" raw
          "property_fields property_data_dict raw" pages 0 False]
  by (simp add: process_item_def)

lemma probate_busy_step:
  assumes "w < length (workers s)" and "workers s ! w = Busy owner_task"
  shows "\<exists>s'. worker_step (probate_process property_data_dict) w (Run pages) s = Some s'
              \<and> results_queue s' = results_queue s @ fst (process_item property_data_dict owner_task pages)
              \<and> completed (stats_dict s') = completed (stats_dict s) + 1
              \<and> in_progress (stats_dict s') = in_progress (stats_dict s) - 1
              \<and> workers s' ! w = Idle"
  using busy_step[OF assms, of "probate_process property_data_dict" pages] assms(1)
  by (simp add: probate_process_def)

section \<open>Properties used by several claims\<close>

lemma attempt_owner_on_error:
  assumes "search_owner page ow = Inl msg"
  shows "status (fst (attempt_owner lbl raw props page ow failed)) = ERROR
         \<and> error (fst (attempt_owner lbl raw props page ow failed)) = Some msg
         \<and> count (fst (attempt_owner lbl raw props page ow failed)) = 0
         \<and> \<not> disqualifying_probate_found (fst (attempt_owner lbl raw props page ow failed))"
  using assms by (cases ow) (simp add: attempt_owner_def)

lemma probate_error_step:
  assumes "w < length (workers s)"
    and "workers s ! w = Busy (original_row, raw, parsed_owners)"
    and "i < length parsed_owners"
    and "search_owner (pages i) (parsed_owners ! i) = Inl msg"
  shows "\<exists>s' entries.
           worker_step (probate_process property_data_dict) w (Run pages) s = Some s'
           \<and> results_queue s' = results_queue s @ entries
           \<and> length entries = length parsed_owners
           \<and> status (entries ! i) = ERROR \<and> error (entries ! i) = Some msg
           \<and> count (entries ! i) = 0
           \<and> completed (stats_dict s') = completed (stats_dict s) + 1
           \<and> in_progress (stats_dict s') = in_progress (stats_dict s) - 1
           \<and> workers s' ! w = Idle"
proof -
  let ?entries = "fst (process_item property_data_dict (original_row, raw, parsed_owners) pages)"
  from process_item_nth[OF assms(3), of property_data_dict original_row raw pages]
    attempt_owner_on_error[OF assms(4)]
  have e: "status (?entries ! i) = ERROR \<and> error (?entries ! i) = Some msg
           \<and> count (?entries ! i) = 0" by auto
  have len: "length ?entries = length parsed_owners"
    using process_owners_length[of "owner_label original_row (length parsed_owners)" raw
            "property_fields property_data_dict raw" pages 0 parsed_owners False]
    by (simp add: process_item_def prod_eq_iff)
  from probate_busy_step[OF assms(1) assms(2), of property_data_dict pages] e len
  show ?thesis by blast
qed

lemma tax_error_step:
  assumes "w < length (workers t)"
    and "workers t ! w = Busy owner_data"
    and "search_and_extract page = Some property_data"
    and "write_file page = Inl msg"
  shows "\<exists>t'. worker_step tax_process w (Run page) t = Some t'
              \<and> results_queue t' = results_queue t
              \<and> completed (stats_dict t') = completed (stats_dict t) + 1
              \<and> in_progress (stats_dict t') = in_progress (stats_dict t) - 1
              \<and> workers t' ! w = Idle"
  using busy_step[OF assms(1) assms(2), of tax_process page] assms(1,3,4)
  by (cases owner_data) (simp add: tax_process_def)

lemma captcha_search_fails: "search_owner (captcha_pages 0) (''JANE'', [], ''DOE'', ''DOE, JANE'')
         = Inl ''CapSolver error: ERROR_KEY_DENIED_ACCESS''"
  by code_simp

lemma poll_task_agree:
  "(\<forall>a. k \<le> a \<and> a < k + n \<longrightarrow> poll a = poll' a) \<Longrightarrow> poll_task poll k n = poll_task poll' k n"
proof (induction n arbitrary: k)
  case 0
  then show ?case by simp
next
  case (Suc n)
  have "k \<le> k \<and> k < k + Suc n" by simp
  with Suc.prems have here: "poll k = poll' k" by blast
  have "poll_task poll (Suc k) n = poll_task poll' (Suc k) n"
  proof (rule Suc.IH, intro allI impI)
    fix a assume "Suc k \<le> a \<and> a < Suc k + n"
    then have "k \<le> a \<and> a < k + Suc n" by simp
    with Suc.prems show "poll a = poll' a" by blast
  qed
  with here show ?case by (simp split: sum.splits)
qed

lemma solve_vendor_error:
  "errorId result \<noteq> Some 0 \<Longrightarrow> solve timeout (Inr result) poll = Inr None"
  by (simp add: solve_def solve_body_def)

lemma solve_captcha_vendor_error:
  "errorId result \<noteq> Some 0 \<Longrightarrow> solve_captcha (Inr result) poll = Inl (capsolver_error result)"
  by (simp add: solve_captcha_def)

lemma solve_poll_timeout:
  assumes "errorId result = Some 0" and "taskId result = Some task_id"
    and "\<forall>a < nat (timeout div 3). \<exists>d. poll a = Inr d \<and> task_status d \<noteq> Some ''ready''"
  shows "solve timeout (Inr result) poll = Inr None"
proof -
  have "poll_task poll 0 (nat (timeout div 3)) = Inr None"
    by (rule poll_task_exhausted) (use assms(3) in simp)
  with assms(1,2) show ?thesis by (simp add: solve_def solve_body_def)
qed

lemma solve_captcha_poll_timeout:
  assumes "errorId result = Some 0" and "taskId result = Some task_id"
    and "\<forall>a < 60. \<exists>d. poll a = Inr d \<and> task_status d \<noteq> Some ''ready''"
  shows "solve_captcha (Inr result) poll = Inl ''CAPTCHA solving timeout''"
proof -
  have "poll_task poll 0 60 = Inr None"
    by (rule poll_task_exhausted) (use assms(3) in simp)
  with assms(1,2) show ?thesis by (simp add: solve_captcha_def)
qed

lemma solve_bounded_polls:
  assumes "\<forall>a < nat (timeout div 3). poll a = poll' a"
  shows "solve timeout created poll = solve timeout created poll'"
proof -
  have "poll_task poll 0 (nat (timeout div 3)) = poll_task poll' 0 (nat (timeout div 3))"
    by (rule poll_task_agree) (use assms in simp)
  then have "solve_body timeout created poll = solve_body timeout created poll'"
    by (simp add: solve_body_def split: sum.splits option.splits)
  then show ?thesis by (simp add: solve_def)
qed

lemma solve_captcha_bounded_polls:
  assumes "\<forall>a < 60. poll a = poll' a"
  shows "solve_captcha created poll = solve_captcha created poll'"
proof -
  have "poll_task poll 0 60 = poll_task poll' 0 60"
    by (rule poll_task_agree) (use assms in simp)
  then show ?thesis by (simp add: solve_captcha_def split: sum.splits option.splits)
qed

lemma search_owner_captcha_raises:
  assumes "fill_search page = Inr ()"
    and "detect_captcha page = Inr (Some kind, site_key)" and "kind \<noteq> []"
    and "solve_captcha (create_task page) (task_polls page) = Inl msg"
  shows "search_owner page ow = Inl msg"
  using assms by (cases ow) (simp add: search_owner_def)

lemma terminated_no_step:
  assumes "terminated s"
  shows "worker_step process w act s = None"
proof (cases "w < length (workers s)")
  case True
  with assms have "ended (workers s ! w)"
    by (simp add: terminated_def list_all_length)
  with True show ?thesis
    by (cases "workers s ! w") (simp_all add: worker_step_def)
next
  case False
  then show ?thesis by (simp add: worker_step_def)
qed

lemma pool_runs_to_shutdown:
  assumes once: "counts_once process" and pos: "0 < n_workers" and cf: "crash_free sched"
    and r: "run process sched (start_pool (map Some items @ replicate n_workers None) n_workers)
              = Some s"
  shows "length sched \<le> 3 * length items + n_workers"
    and "terminated s \<Longrightarrow>
           completed (stats_dict s) = int (length items) \<and> in_progress (stats_dict s) = 0
           \<and> work_queue s = [] \<and> workers s = replicate n_workers ShutDown
           \<and> length sched = 3 * length items + n_workers"
    and "\<not> terminated s \<Longrightarrow>
           \<exists>w < n_workers. \<forall>page. \<exists>s'. worker_step process w (Run page) s = Some s'
                                        \<and> workers s' ! w \<noteq> workers s ! w"
proof -
  from run_inv[OF pool_inv_start once cf r]
  have inv: "pool_inv (length items) n_workers (length sched) s" by simp
  from pool_inv_bound[OF inv] show "length sched \<le> 3 * length items + n_workers" .
  show "completed (stats_dict s) = int (length items) \<and> in_progress (stats_dict s) = 0
           \<and> work_queue s = [] \<and> workers s = replicate n_workers ShutDown
           \<and> length sched = 3 * length items + n_workers" if "terminated s"
    using pool_inv_terminated[OF inv pos that] .
  show "\<exists>w < n_workers. \<forall>page. \<exists>s'. worker_step process w (Run page) s = Some s'
                                        \<and> workers s' ! w \<noteq> workers s ! w" if "\<not> terminated s"
    using pool_inv_progress[OF inv that] .
qed

lemma completed_step:
  assumes "counts_once process" and "worker_step process w act u = Some u'"
  shows "completed (stats_dict u')
           = completed (stats_dict u) + (if is_busy (workers u ! w) \<and> \<not> is_crash act then 1 else 0)"
proof -
  from assms(2) have w: "w < length (workers u)"
    by (auto simp: worker_step_def split: if_splits)
  show ?thesis
  proof (cases act)
    case Crash
    with assms(2) w show ?thesis
      by (cases "workers u ! w") (auto simp: worker_step_def)
  next
    case (Run page)
    show ?thesis
    proof (cases "workers u ! w")
      case Idle
      with assms(2) w Run show ?thesis
        by (auto simp: worker_step_def split: list.splits option.splits if_splits)
    next
      case (Popped item)
      with assms(2) w Run show ?thesis by (auto simp: worker_step_def)
    next
      case (Busy item)
      obtain outs dc dq dp where pr: "process w item page = (outs, dc, dq, dp)"
        by (cases "process w item page") auto
      with assms(1) have "dc = 1" unfolding counts_once_def by (metis fst_conv snd_conv)
      with assms(2) w Run Busy pr show ?thesis by (auto simp: worker_step_def)
    next
      case ShutDown
      with assms(2) w show ?thesis by (simp add: worker_step_def)
    next
      case Drained
      with assms(2) w show ?thesis by (simp add: worker_step_def)
    next
      case Crashed
      with assms(2) w show ?thesis by (simp add: worker_step_def)
    qed
  qed
qed

lemma probate_sample_run:
  "map_option (\<lambda>s. (completed (stats_dict s), in_progress (stats_dict s), workers s,
                    work_queue s, map status (results_queue s)))
     (run (probate_process Map.empty) probate_schedule
        (start_pool (map Some [doe_item, amp_item] @ replicate 2 None) 2))
   = Some (2, 0, [ShutDown, ShutDown], [], [FOUND_CLEAN])"
  by code_simp

lemma tax_sample_run:
  "map_option (\<lambda>t. (completed (stats_dict t), qualified (stats_dict t), in_progress (stats_dict t),
                    workers t, work_queue t, results_queue t))
     (run tax_process tax_schedule
        (start_pool (map Some [tax_doe, (901, ''ROE'', ''RICHARD'')] @ replicate 2 None) 2))
   = Some (2, 1, 0, [ShutDown, ShutDown], [], [(2, 901, ''00000123456'')])"
  by code_simp

lemma probate_sample_queue:
  "probate_queue 3 10 2 probate_owners = Some (map Some [doe_item, amp_item] @ replicate 2 None)"
  by code_simp

lemma tax_sample_queue:
  "tax_queue 2 (load_owners_from_file tax_lines 1 None)
     = Some (map Some [(1, ''DOE'', ''JANE''), (3, ''ROE'', ''RICHARD'')] @ replicate 2 None)"
  by code_simp

lemma tax_sample_run_rows:
  "map_option (\<lambda>t. (workers t, work_queue t))
     (run tax_process tax_schedule
        (start_pool (map Some [(1, ''DOE'', ''JANE''), (3, ''ROE'', ''RICHARD'')] @ replicate 2 None) 2))
   = Some ([ShutDown, ShutDown], [])"
  by code_simp

text \<open>
  Why the runs above are crash-free ones: a worker that crashes while it holds an item
  takes the item with it, and the run ends with that item uncounted.
\<close>
lemma crash_loses_item:
  "map_option (\<lambda>s. (terminated s, completed (stats_dict s), work_queue s))
     (run tax_process [(0, Run tax_found), (0, Crash), (1, Run tax_found)]
        (start_pool (map Some [tax_doe] @ replicate 2 None) 2))
   = Some (True, 0, [None])"
  by code_simp

section \<open>The claims\<close>

text \<open>
  C8. For the input "SMITH JOHN & MARY EST OF" the owner-name parser returns exactly two
  owners, (first JOHN, last SMITH, search "SMITH, JOHN") and (first MARY, last SMITH, search
  "SMITH, MARY"): the second party, a lone first name after the "&", takes the surname of
  the first party.
\<close>
theorem co_owner_split_example:
  "parse_owner_name ''SMITH JOHN & MARY EST OF''
     = [(''JOHN'', [], ''SMITH'', ''SMITH, JOHN''), (''MARY'', [], ''SMITH'', ''SMITH, MARY'')]"
  by code_simp

text \<open>
  C10. Some raw owner strings parse to no owner at all: a bare "&", and "SMITH &", whose
  halves hold too few name words. A worker that processes an item built from such a string
  puts nothing on the results queue and still adds exactly one to \<open>completed\<close> (and takes
  one from \<open>in_progress\<close>).
\<close>
theorem empty_parse_still_counted:
  assumes "w < length (workers s)"
    and "workers s ! w = Busy (original_row, raw, parse_owner_name raw)"
    and "raw = ''&'' \<or> raw = ''SMITH &''"
  shows "parse_owner_name raw = []
         \<and> (\<exists>s'. worker_step (probate_process property_data_dict) w (Run pages) s = Some s'
                 \<and> results_queue s' = results_queue s
                 \<and> completed (stats_dict s') = completed (stats_dict s) + 1
                 \<and> in_progress (stats_dict s') = in_progress (stats_dict s) - 1)"
proof -
  from assms(3) have e: "parse_owner_name raw = []"
    using parse_ampersand parse_lonely_surname by auto
  have "fst (process_item property_data_dict (original_row, raw, []) pages) = []"
    by (simp add: process_item_def)
  with e busy_step[OF assms(1) assms(2), of "probate_process property_data_dict" pages]
  show ?thesis by (simp add: probate_process_def)
qed

theorem empty_parse_still_counted_witness:
  "\<exists>s'. worker_step (probate_process Map.empty) 0 (Run slow_pages)
            \<lparr>work_queue = [None], results_queue = [],
             stats_dict = \<lparr>completed = 0, qualified = 0, in_progress = 1\<rparr>,
             workers = [Busy (1, ''&'', parse_owner_name ''&'')]\<rparr> = Some s'
        \<and> results_queue s' = [] \<and> completed (stats_dict s') = 1 \<and> in_progress (stats_dict s') = 0"
proof -
  let ?s = "\<lparr>work_queue = [None], results_queue = [] :: log_entry list,
             stats_dict = \<lparr>completed = 0, qualified = 0, in_progress = 1\<rparr>,
             workers = [Busy (1 :: nat, ''&'', parse_owner_name ''&'')]\<rparr>"
  have h1: "0 < length (workers ?s)" by simp
  have h2: "workers ?s ! 0 = Busy (1, ''&'', parse_owner_name ''&'')" by simp
  have h3: "''&'' = ''&'' \<or> ''&'' = ''SMITH &''" by simp
  from empty_parse_still_counted[OF h1 h2 h3, of Map.empty slow_pages]
  show ?thesis by auto
qed

text \<open>
  C6. For one work item, the final value of \<open>owners_failed_filter\<close> is the logical OR of
  \<open>disqualifying_probate_found\<close> over the entries of its owners, one entry per owner; when
  the item has an owner, it is the \<open>overall_property_failed\<close> recorded in the last entry; and
  when every entry is FOUND_CLEAN or NOT_FOUND the item is not disqualified. The
  \<open>overall_property_failed\<close> of each entry is the OR up to and including that owner.
\<close>
theorem aggregate_is_or:
  assumes "process_item property_data_dict (original_row, raw, parsed_owners) pages
             = (entries, owners_failed_filter)"
  shows "length entries = length parsed_owners
         \<and> owners_failed_filter = (\<exists>e \<in> set entries. disqualifying_probate_found e)
         \<and> (parsed_owners \<noteq> [] \<longrightarrow> overall_property_failed (last entries) = owners_failed_filter)
         \<and> ((\<forall>e \<in> set entries. status e = FOUND_CLEAN \<or> status e = NOT_FOUND)
              \<longrightarrow> \<not> owners_failed_filter)
         \<and> (\<forall>i < length entries.
               overall_property_failed (entries ! i)
                 = (\<exists>j \<le> i. disqualifying_probate_found (entries ! j)))"
proof -
  from assms have po: "process_owners (owner_label original_row (length parsed_owners)) raw
          (property_fields property_data_dict raw) pages 0 parsed_owners False
            = (entries, owners_failed_filter)"
    by (simp add: process_item_def)
  note len = process_owners_length[OF po]
  note agg = process_owners_aggregate[OF po]
  from agg have or: "owners_failed_filter = (\<exists>e \<in> set entries. disqualifying_probate_found e)"
    by simp
  from agg len have lst: "parsed_owners \<noteq> [] \<longrightarrow> overall_property_failed (last entries) = owners_failed_filter"
    by auto
  from agg have flag: "\<forall>e \<in> set entries. disqualifying_probate_found e = (status e = DISQUALIFIED)"
    by simp
  have clean: "(\<forall>e \<in> set entries. status e = FOUND_CLEAN \<or> status e = NOT_FOUND)
                 \<longrightarrow> \<not> owners_failed_filter"
    using or flag by auto
  have running: "\<forall>i < length entries.
               overall_property_failed (entries ! i)
                 = (\<exists>j \<le> i. disqualifying_probate_found (entries ! j))"
    using process_owners_running[OF po] by simp
  show ?thesis
    by (intro conjI, fact len, fact or, fact lst, fact clean, fact running)
qed

theorem aggregate_is_or_witness:
  "length (fst (process_item Map.empty smith_item (\<lambda>k. if k = 0 then found_page else empty_page))) = 2
   \<and> map status (fst (process_item Map.empty smith_item (\<lambda>k. if k = 0 then found_page else empty_page)))
        = [DISQUALIFIED, NOT_FOUND]
   \<and> snd (process_item Map.empty smith_item (\<lambda>k. if k = 0 then found_page else empty_page))
   \<and> overall_property_failed
        (last (fst (process_item Map.empty smith_item (\<lambda>k. if k = 0 then found_page else empty_page))))"
proof -
  let ?pages = "\<lambda>k :: nat. if k = 0 then found_page else empty_page"
  let ?owners = "[(''JOHN'', [], ''SMITH'', ''SMITH, JOHN''), (''MARY'', [], ''SMITH'', ''SMITH, MARY'')]"
  have item: "smith_item = (7, ''SMITH JOHN & MARY'', ?owners)"
    unfolding smith_item_def by code_simp
  have h: "process_item Map.empty (7, ''SMITH JOHN & MARY'', ?owners) ?pages
             = (fst (process_item Map.empty smith_item ?pages),
                snd (process_item Map.empty smith_item ?pages))"
    by (simp add: item)
  have st: "map status (fst (process_item Map.empty smith_item ?pages)) = [DISQUALIFIED, NOT_FOUND]"
    by code_simp
  have fl: "snd (process_item Map.empty smith_item ?pages)"
    by code_simp
  from aggregate_is_or[OF h] st fl show ?thesis by simp
qed

text \<open>
  C3. If the form is filled, the CAPTCHA stage passes, the search is submitted and none of
  the twenty polls of the result page sees a party card or a no-results text, then the
  wait reports failure with count 0, the entry of that owner has status TIMEOUT and count
  0, and the worker's step on the item still adds one to \<open>completed\<close>.
\<close>
theorem poll_timeout_outcome:
  assumes "fill_search (pages i) = Inr ()"
    and "detect_captcha (pages i) = Inr (captcha_type, site_key)"
    and "captcha_type = None \<or> captcha_type = Some []
         \<or> (\<exists>token. solve_captcha (create_task (pages i)) (task_polls (pages i)) = Inr token
                     \<and> inject_token (pages i) = Inr ())"
    and "click_submit (pages i) = Inr ()"
    and "result_page (pages i) = Inr doc"
    and "\<forall>k. 1 \<le> k \<and> k \<le> maxAttempts \<longrightarrow>
           (case doc k of NoBody \<Rightarrow> True
            | Body partyCards bodyText \<Rightarrow> partyCards = 0 \<and> \<not> no_results_text bodyText)"
    and "i < length parsed_owners"
    and "w < length (workers s)"
    and "workers s ! w = Busy (original_row, raw, parsed_owners)"
  shows "wait_for_results (result_page (pages i)) = Inr (False, 0)
         \<and> (\<exists>s' entries.
               worker_step (probate_process property_data_dict) w (Run pages) s = Some s'
               \<and> results_queue s' = results_queue s @ entries
               \<and> length entries = length parsed_owners
               \<and> status (entries ! i) = TIMEOUT \<and> count (entries ! i) = 0
               \<and> completed (stats_dict s') = completed (stats_dict s) + 1
               \<and> in_progress (stats_dict s') = in_progress (stats_dict s) - 1)"
proof -
  have "0 < maxAttempts" by (simp add: maxAttempts_def)
  moreover from assms(6) have "\<forall>k. 0 < k \<and> k \<le> maxAttempts \<longrightarrow>
           (case doc k of NoBody \<Rightarrow> True
            | Body n text \<Rightarrow> n = 0 \<and> \<not> no_results_text text)" by simp
  ultimately have poll: "checkResults doc 0 = (False, 0)"
    by (rule checkResults_timeout_from)
  with assms(5) have wait: "wait_for_results (result_page (pages i)) = Inr (False, 0)"
    by (simp add: wait_for_results_def)
  let ?entries = "fst (process_item property_data_dict (original_row, raw, parsed_owners) pages)"
  from search_owner_timeout[OF assms(1-5) poll]
  have to: "search_owner (pages i) (parsed_owners ! i) = Inr SearchTimeout" .
  from process_item_nth[OF assms(7), of property_data_dict original_row raw pages]
    attempt_owner_on_timeout[OF to]
  have e: "status (?entries ! i) = TIMEOUT \<and> count (?entries ! i) = 0" by auto
  have len: "length ?entries = length parsed_owners"
    using process_owners_length[of "owner_label original_row (length parsed_owners)" raw
            "property_fields property_data_dict raw" pages 0 parsed_owners False]
    by (simp add: process_item_def prod_eq_iff)
  from probate_busy_step[OF assms(8) assms(9), of property_data_dict pages] e len wait
  show ?thesis by blast
qed

theorem poll_timeout_outcome_witness:
  "wait_for_results (result_page slow_page) = Inr (False, 0)
   \<and> (\<exists>s' entries.
         worker_step (probate_process Map.empty) 0 (Run slow_pages) (holding doe_item) = Some s'
         \<and> results_queue s' = entries \<and> length entries = 1
         \<and> status (entries ! 0) = TIMEOUT \<and> count (entries ! 0) = 0
         \<and> completed (stats_dict s') = 1 \<and> in_progress (stats_dict s') = 0)"
proof -
  let ?doc = "\<lambda>k :: nat. Body 0 ''Loading...''"
  have quiet: "\<not> no_results_text ''Loading...''" by code_simp
  have h1: "fill_search (slow_pages 0) = Inr ()" by (simp add: slow_pages_def slow_page_def)
  have h2: "detect_captcha (slow_pages 0) = Inr (None, None)"
    by (simp add: slow_pages_def slow_page_def)
  have h3: "(None :: string option) = None \<or> (None :: string option) = Some []
         \<or> (\<exists>token. solve_captcha (create_task (slow_pages 0)) (task_polls (slow_pages 0)) = Inr token
                     \<and> inject_token (slow_pages 0) = Inr ())" by simp
  have h4: "click_submit (slow_pages 0) = Inr ()" by (simp add: slow_pages_def slow_page_def)
  have h5: "result_page (slow_pages 0) = Inr ?doc" by (simp add: slow_pages_def slow_page_def)
  have h6: "\<forall>k. 1 \<le> k \<and> k \<le> maxAttempts \<longrightarrow>
           (case ?doc k of NoBody \<Rightarrow> True
            | Body partyCards bodyText \<Rightarrow> partyCards = 0 \<and> \<not> no_results_text bodyText)"
    using quiet by simp
  have h7: "0 < length [(''JANE'', [], ''DOE'', ''DOE, JANE'')]" by simp
  have h8: "0 < length (workers (holding doe_item :: (work_item, log_entry) pool))"
    by (simp add: holding_def)
  have h9: "workers (holding doe_item :: (work_item, log_entry) pool) ! 0
              = Busy (3, ''DOE, JANE EST OF'', [(''JANE'', [], ''DOE'', ''DOE, JANE'')])"
    by (simp add: holding_def doe_item_def)
  note inst = poll_timeout_outcome[where pages = slow_pages and i = 0 and doc = ?doc
      and captcha_type = None and site_key = None
      and parsed_owners = "[(''JANE'', [], ''DOE'', ''DOE, JANE'')]" and w = 0
      and s = "holding doe_item :: (work_item, log_entry) pool" and original_row = 3
      and raw = "''DOE, JANE EST OF''" and property_data_dict = Map.empty]
  from inst[OF h1 h2 h3 h4 h5 h6 h7 h8 h9]
  show ?thesis by (auto simp: holding_def slow_pages_def)
qed

text \<open>
  C7, as amended. On an empty-queue timeout a worker leaves its loop if and only if
  \<open>in_progress\<close> is 0 under the statistics lock, and otherwise loops again with nothing
  changed. The writer's fallback on an empty-queue timeout leaves its loop if and only if
  \<open>in_progress\<close> is 0 and \<open>completed\<close> has reached the total: a stronger test than the
  workers' (it implies theirs), not the same one. The poison pill always ends the writer,
  and an entry never does.
\<close>
theorem empty_timeout_conditions:
  assumes "w < length (workers s)" and "workers s ! w = Idle" and "work_queue s = []"
  shows "(in_progress (stats_dict s) = 0 \<longrightarrow>
            worker_step process w (Run page) s = Some (s\<lparr>workers := (workers s)[w := Drained]\<rparr>))
         \<and> (in_progress (stats_dict s) \<noteq> 0 \<longrightarrow> worker_step process w (Run page) s = Some s)
         \<and> result_writer total_tasks Empty (st, wr)
             = ((st, wr), in_progress st = 0 \<and> completed st \<ge> total_tasks)
         \<and> (snd (result_writer total_tasks Empty (st, wr)) \<longrightarrow> nothing_in_progress st)
         \<and> result_writer total_tasks (Got None) (st, wr) = ((st, wr), True)
         \<and> \<not> snd (result_writer total_tasks (Got (Some entry)) (st, wr))"
  using assms
  by (auto simp: worker_step_def nothing_in_progress_def result_writer_def all_work_complete_def)

theorem empty_timeout_conditions_witness:
  "worker_step (probate_process Map.empty) 0 (Run slow_pages) waiting
     = Some (waiting\<lparr>workers := [Drained]\<rparr>)
   \<and> result_writer 1 Empty (no_stats, fresh_writer) = ((no_stats, fresh_writer), False)
   \<and> result_writer 0 Empty (no_stats, fresh_writer) = ((no_stats, fresh_writer), True)
   \<and> result_writer 1 (Got None) (no_stats, fresh_writer) = ((no_stats, fresh_writer), True)"
proof -
  have h1: "0 < length (workers (waiting :: (work_item, log_entry) pool))"
    by (simp add: waiting_def)
  have h2: "workers (waiting :: (work_item, log_entry) pool) ! 0 = Idle"
    by (simp add: waiting_def)
  have h3: "work_queue (waiting :: (work_item, log_entry) pool) = []"
    by (simp add: waiting_def)
  from empty_timeout_conditions[OF h1 h2 h3, of "probate_process Map.empty" slow_pages 1 no_stats fresh_writer]
       empty_timeout_conditions[OF h1 h2 h3, of "probate_process Map.empty" slow_pages 0 no_stats fresh_writer]
  show ?thesis by (simp add: waiting_def no_stats_def)
qed

text \<open>
  C7 as stated fails: with nothing completed and nothing in progress, out of one task, the
  worker's test lets it leave and the writer's test keeps it running.
\<close>
theorem writer_condition_differs:
  "worker_step (probate_process no_properties) 0 (Run slow_pages) waiting
     = Some (waiting\<lparr>workers := [Drained]\<rparr>)
   \<and> stats_dict (waiting :: (work_item, log_entry) pool) = no_stats
   \<and> result_writer 1 Empty (no_stats, fresh_writer) = ((no_stats, fresh_writer), False)"
  by (simp add: worker_step_def waiting_def no_stats_def nothing_in_progress_def
                result_writer_def all_work_complete_def)

text \<open>
  C4, as amended. In the probate driver an exception raised during the search attempt of
  one owner is caught at that attempt: the entry of that owner has status ERROR, carries
  the message and count 0, the item is counted once and the worker is back at the queue.
  In the tax driver an exception raised while an item is processed (the append to the
  output file) is caught at the item: nothing is put on the results queue, the item is
  counted once and the worker is back at the queue.
\<close>
theorem item_exception_contained:
  assumes "w < length (workers s)" and "v < length (workers t)"
  shows "(workers s ! w = Busy (original_row, raw, parsed_owners) \<and> i < length parsed_owners
          \<and> search_owner (pages i) (parsed_owners ! i) = Inl msg \<longrightarrow>
            (\<exists>s' entries.
               worker_step (probate_process property_data_dict) w (Run pages) s = Some s'
               \<and> results_queue s' = results_queue s @ entries
               \<and> length entries = length parsed_owners
               \<and> status (entries ! i) = ERROR \<and> error (entries ! i) = Some msg
               \<and> count (entries ! i) = 0
               \<and> completed (stats_dict s') = completed (stats_dict s) + 1
               \<and> in_progress (stats_dict s') = in_progress (stats_dict s) - 1
               \<and> workers s' ! w = Idle))
         \<and> (workers t ! v = Busy owner_data \<and> search_and_extract page = Some property_data
            \<and> write_file page = Inl msg \<longrightarrow>
            (\<exists>t'. worker_step tax_process v (Run page) t = Some t'
                  \<and> results_queue t' = results_queue t
                  \<and> completed (stats_dict t') = completed (stats_dict t) + 1
                  \<and> in_progress (stats_dict t') = in_progress (stats_dict t) - 1
                  \<and> workers t' ! v = Idle))"
  using probate_error_step[OF assms(1), of original_row raw parsed_owners i pages msg property_data_dict]
        tax_error_step[OF assms(2), of owner_data page property_data msg]
  by blast

theorem item_exception_contained_witness:
  "(\<exists>s' entries.
      worker_step (probate_process Map.empty) 0 (Run captcha_pages) (holding doe_item) = Some s'
      \<and> results_queue s' = entries \<and> length entries = 1
      \<and> status (entries ! 0) = ERROR
      \<and> error (entries ! 0) = Some ''CapSolver error: ERROR_KEY_DENIED_ACCESS''
      \<and> completed (stats_dict s') = 1 \<and> workers s' ! 0 = Idle)
   \<and> (\<exists>t'. worker_step tax_process 0 (Run write_fails) (holding tax_doe) = Some t'
           \<and> results_queue t' = [] \<and> completed (stats_dict t') = 1 \<and> workers t' ! 0 = Idle)"
proof -
  let ?s = "holding doe_item :: (work_item, log_entry) pool"
  let ?t = "holding tax_doe :: (tax_item, nat \<times> nat \<times> string) pool"
  have h1: "0 < length (workers ?s)" by (simp add: holding_def)
  have h2: "0 < length (workers ?t)" by (simp add: holding_def)
  have p1: "workers ?s ! 0 = Busy (3, ''DOE, JANE EST OF'', [(''JANE'', [], ''DOE'', ''DOE, JANE'')])"
    by (simp add: holding_def doe_item_def)
  have p2: "0 < length [(''JANE'', [] :: string, ''DOE'', ''DOE, JANE'')]" by simp
  have p3: "search_owner (captcha_pages 0) ([(''JANE'', [], ''DOE'', ''DOE, JANE'')] ! 0)
              = Inl ''CapSolver error: ERROR_KEY_DENIED_ACCESS''"
    using captcha_search_fails by simp
  have q1: "workers ?t ! 0 = Busy tax_doe" by (simp add: holding_def)
  have q2: "search_and_extract write_fails = Some ''00000123456''" by (simp add: write_fails_def)
  have q3: "write_file write_fails = Inl ''No space left on device''" by (simp add: write_fails_def)
  note inst = item_exception_contained[OF h1 h2, where original_row = 3
      and raw = "''DOE, JANE EST OF''" and parsed_owners = "[(''JANE'', [], ''DOE'', ''DOE, JANE'')]"
      and i = 0 and pages = captcha_pages and msg = "''CapSolver error: ERROR_KEY_DENIED_ACCESS''"
      and property_data_dict = Map.empty]
  from inst[THEN conjunct1, rule_format, OF conjI[OF p1 conjI[OF p2 p3]]]
  have a: "\<exists>s' entries.
      worker_step (probate_process Map.empty) 0 (Run captcha_pages) (holding doe_item) = Some s'
      \<and> results_queue s' = entries \<and> length entries = 1
      \<and> status (entries ! 0) = ERROR
      \<and> error (entries ! 0) = Some ''CapSolver error: ERROR_KEY_DENIED_ACCESS''
      \<and> completed (stats_dict s') = 1 \<and> workers s' ! 0 = Idle"
    by (auto simp: holding_def)
  from item_exception_contained[OF h1 h2, THEN conjunct2, rule_format, OF conjI[OF q1 conjI[OF q2 q3]]]
  have b: "\<exists>t'. worker_step tax_process 0 (Run write_fails) (holding tax_doe) = Some t'
           \<and> results_queue t' = [] \<and> completed (stats_dict t') = 1 \<and> workers t' ! 0 = Idle"
    by (auto simp: holding_def)
  from a b show ?thesis by blast
qed

text \<open>
  C4 as stated fails in the tax driver: the exception of the file append leaves the results
  queue empty, no ERROR outcome is made.
\<close>
theorem tax_exception_leaves_no_outcome:
  "worker_step tax_process 0 (Run write_fails) (holding tax_doe)
     = Some \<lparr>work_queue = [None], results_queue = [],
             stats_dict = \<lparr>completed = 1, qualified = 0, in_progress = 0\<rparr>,
             workers = [Idle]\<rparr>"
  by (simp add: worker_step_def holding_def tax_doe_def write_fails_def tax_process_def)

text \<open>
  C9, as amended. \<open>CaptchaSolver.solve\<close> never raises: on a vendor error, and when none of its
  \<open>timeout // 3\<close> polls finds the task ready, it returns \<open>None\<close>; it looks at no poll
  beyond those. The probate worker calls its own \<open>solve_captcha\<close>, which looks at sixty
  polls and raises on a vendor error and when none of them is ready; the worker's handler
  turns that exception into the ERROR entry of the owner, counts the item and goes back to
  the queue.
\<close>
theorem captcha_failure_recoverable:
  assumes "w < length (workers s)"
    and "workers s ! w = Busy (original_row, raw, parsed_owners)"
    and "i < length parsed_owners"
  shows "(\<exists>r. solve timeout created poll = Inr r)
         \<and> (errorId result \<noteq> Some 0 \<longrightarrow>
               solve timeout (Inr result) poll = Inr None
               \<and> solve_captcha (Inr result) poll = Inl (capsolver_error result))
         \<and> (errorId result = Some 0 \<and> taskId result = Some task_id
            \<and> (\<forall>a < nat (timeout div 3). \<exists>d. poll a = Inr d \<and> task_status d \<noteq> Some ''ready'')
              \<longrightarrow> solve timeout (Inr result) poll = Inr None)
         \<and> (errorId result = Some 0 \<and> taskId result = Some task_id
            \<and> (\<forall>a < 60. \<exists>d. poll a = Inr d \<and> task_status d \<noteq> Some ''ready'')
              \<longrightarrow> solve_captcha (Inr result) poll = Inl ''CAPTCHA solving timeout'')
         \<and> ((\<forall>a < nat (timeout div 3). poll a = poll' a)
              \<longrightarrow> solve timeout created poll = solve timeout created poll')
         \<and> ((\<forall>a < 60. poll a = poll' a)
              \<longrightarrow> solve_captcha created poll = solve_captcha created poll')
         \<and> (fill_search (pages i) = Inr ()
            \<and> detect_captcha (pages i) = Inr (Some kind, site_key) \<and> kind \<noteq> []
            \<and> solve_captcha (create_task (pages i)) (task_polls (pages i)) = Inl msg \<longrightarrow>
              (\<exists>s' entries.
                 worker_step (probate_process property_data_dict) w (Run pages) s = Some s'
                 \<and> results_queue s' = results_queue s @ entries
                 \<and> length entries = length parsed_owners
                 \<and> status (entries ! i) = ERROR \<and> error (entries ! i) = Some msg
                 \<and> completed (stats_dict s') = completed (stats_dict s) + 1
                 \<and> in_progress (stats_dict s') = in_progress (stats_dict s) - 1
                 \<and> workers s' ! w = Idle))"
proof -
  have worker: "\<exists>s' entries.
                 worker_step (probate_process property_data_dict) w (Run pages) s = Some s'
                 \<and> results_queue s' = results_queue s @ entries
                 \<and> length entries = length parsed_owners
                 \<and> status (entries ! i) = ERROR \<and> error (entries ! i) = Some msg
                 \<and> completed (stats_dict s') = completed (stats_dict s) + 1
                 \<and> in_progress (stats_dict s') = in_progress (stats_dict s) - 1
                 \<and> workers s' ! w = Idle"
    if "fill_search (pages i) = Inr ()"
      and "detect_captcha (pages i) = Inr (Some kind, site_key)" and "kind \<noteq> []"
      and "solve_captcha (create_task (pages i)) (task_polls (pages i)) = Inl msg"
  proof -
    from search_owner_captcha_raises[OF that]
    have "search_owner (pages i) (parsed_owners ! i) = Inl msg" .
    from probate_error_step[where pages = pages, OF assms(1) assms(2) assms(3) this,
                            of property_data_dict]
    show ?thesis by blast
  qed
  have c1: "\<exists>r. solve timeout created poll = Inr r"
    by (rule solve_never_raises)
  have c2: "errorId result \<noteq> Some 0 \<longrightarrow>
               solve timeout (Inr result) poll = Inr None
               \<and> solve_captcha (Inr result) poll = Inl (capsolver_error result)"
    using solve_vendor_error[of result timeout poll] solve_captcha_vendor_error[of result poll]
    by blast
  have c3: "errorId result = Some 0 \<and> taskId result = Some task_id
            \<and> (\<forall>a < nat (timeout div 3). \<exists>d. poll a = Inr d \<and> task_status d \<noteq> Some ''ready'')
              \<longrightarrow> solve timeout (Inr result) poll = Inr None"
    using solve_poll_timeout[of result task_id timeout poll] by blast
  have c4: "errorId result = Some 0 \<and> taskId result = Some task_id
            \<and> (\<forall>a < 60. \<exists>d. poll a = Inr d \<and> task_status d \<noteq> Some ''ready'')
              \<longrightarrow> solve_captcha (Inr result) poll = Inl ''CAPTCHA solving timeout''"
    using solve_captcha_poll_timeout[of result task_id poll] by blast
  have c5: "(\<forall>a < nat (timeout div 3). poll a = poll' a)
              \<longrightarrow> solve timeout created poll = solve timeout created poll'"
    using solve_bounded_polls[of timeout poll poll' created] by blast
  have c6: "(\<forall>a < 60. poll a = poll' a)
              \<longrightarrow> solve_captcha created poll = solve_captcha created poll'"
    using solve_captcha_bounded_polls[of poll poll' created] by blast
  have c7: "fill_search (pages i) = Inr ()
            \<and> detect_captcha (pages i) = Inr (Some kind, site_key) \<and> kind \<noteq> []
            \<and> solve_captcha (create_task (pages i)) (task_polls (pages i)) = Inl msg \<longrightarrow>
              (\<exists>s' entries.
                 worker_step (probate_process property_data_dict) w (Run pages) s = Some s'
                 \<and> results_queue s' = results_queue s @ entries
                 \<and> length entries = length parsed_owners
                 \<and> status (entries ! i) = ERROR \<and> error (entries ! i) = Some msg
                 \<and> completed (stats_dict s') = completed (stats_dict s) + 1
                 \<and> in_progress (stats_dict s') = in_progress (stats_dict s) - 1
                 \<and> workers s' ! w = Idle)"
    using worker by blast
  show ?thesis
    by (intro conjI, fact c1, fact c2, fact c3, fact c4, fact c5, fact c6, fact c7)
qed

theorem captcha_failure_recoverable_witness:
  "solve 180 (Inr key_denied) never_ready = Inr None
   \<and> solve 180 (Inr task_created) never_ready = Inr None
   \<and> solve_captcha (Inr task_created) never_ready = Inl ''CAPTCHA solving timeout''
   \<and> (\<exists>s' entries.
         worker_step (probate_process Map.empty) 0 (Run captcha_pages) (holding doe_item) = Some s'
         \<and> results_queue s' = entries \<and> length entries = 1
         \<and> status (entries ! 0) = ERROR
         \<and> error (entries ! 0) = Some ''CapSolver error: ERROR_KEY_DENIED_ACCESS''
         \<and> completed (stats_dict s') = 1 \<and> workers s' ! 0 = Idle)"
proof -
  let ?s = "holding doe_item :: (work_item, log_entry) pool"
  have h1: "0 < length (workers ?s)" by (simp add: holding_def)
  have h2: "workers ?s ! 0 = Busy (3, ''DOE, JANE EST OF'', [(''JANE'', [], ''DOE'', ''DOE, JANE'')])"
    by (simp add: holding_def doe_item_def)
  have h3: "0 < length [(''JANE'', [] :: string, ''DOE'', ''DOE, JANE'')]" by simp
  note denied = captcha_failure_recoverable[OF h1 h2 h3, where result = key_denied
      and timeout = 180 and poll = never_ready and pages = captcha_pages
      and kind = "''ReCaptchaV2TaskProxyLess''" and site_key = "Some ''6Lc''"
      and msg = "''CapSolver error: ERROR_KEY_DENIED_ACCESS''" and property_data_dict = Map.empty]
  note slow = captcha_failure_recoverable[OF h1 h2 h3, where result = task_created
      and task_id = "''task-1''" and timeout = 180 and poll = never_ready]
  have e1: "errorId key_denied \<noteq> Some 0" by (simp add: key_denied_def)
  have e2: "errorId task_created = Some 0 \<and> taskId task_created = Some ''task-1''"
    by (simp add: task_created_def)
  have e3: "\<forall>a. \<exists>d. never_ready a = Inr d \<and> task_status d \<noteq> Some ''ready''"
    by (simp add: never_ready_def)
  have e4: "fill_search (captcha_pages 0) = Inr ()
            \<and> detect_captcha (captcha_pages 0) = Inr (Some ''ReCaptchaV2TaskProxyLess'', Some ''6Lc'')
            \<and> ''ReCaptchaV2TaskProxyLess'' \<noteq> []
            \<and> solve_captcha (create_task (captcha_pages 0)) (task_polls (captcha_pages 0))
                = Inl ''CapSolver error: ERROR_KEY_DENIED_ACCESS''"
    by (simp add: captcha_pages_def slow_page_def solve_captcha_def key_denied_def
                  capsolver_error_def)
  from denied e1 have a: "solve 180 (Inr key_denied) never_ready = Inr None" by blast
  from slow e2 e3 have b: "solve 180 (Inr task_created) never_ready = Inr None" by blast
  from slow e2 e3 have c: "solve_captcha (Inr task_created) never_ready = Inl ''CAPTCHA solving timeout''"
    by blast
  from denied e4 have "\<exists>s' entries.
         worker_step (probate_process Map.empty) 0 (Run captcha_pages) ?s = Some s'
         \<and> results_queue s' = results_queue ?s @ entries
         \<and> length entries = length [(''JANE'', [] :: string, ''DOE'', ''DOE, JANE'')]
         \<and> status (entries ! 0) = ERROR
         \<and> error (entries ! 0) = Some ''CapSolver error: ERROR_KEY_DENIED_ACCESS''
         \<and> completed (stats_dict s') = completed (stats_dict ?s) + 1
         \<and> in_progress (stats_dict s') = in_progress (stats_dict ?s) - 1
         \<and> workers s' ! 0 = Idle" by blast
  then have d: "\<exists>s' entries.
         worker_step (probate_process Map.empty) 0 (Run captcha_pages) (holding doe_item) = Some s'
         \<and> results_queue s' = entries \<and> length entries = 1
         \<and> status (entries ! 0) = ERROR
         \<and> error (entries ! 0) = Some ''CapSolver error: ERROR_KEY_DENIED_ACCESS''
         \<and> completed (stats_dict s') = 1 \<and> workers s' ! 0 = Idle"
    by (auto simp: holding_def)
  from a b c d show ?thesis by blast
qed

text \<open>
  C9 as stated fails for the solver the probate worker calls: on a vendor error it raises.
\<close>
theorem probate_solver_raises:
  "solve_captcha (Inr key_denied) never_ready = Inl ''CapSolver error: ERROR_KEY_DENIED_ACCESS''"
  by (simp add: solve_captcha_def key_denied_def capsolver_error_def)



text \<open>
  C1. In every crash-free run of a pool of at least one worker, of either driver, on a
  queue of items followed by one pill per worker: once all workers have ended,
  \<open>completed\<close> is the number of items and \<open>in_progress\<close> is 0. A step changes \<open>completed\<close>
  only when a worker finishes an item, and then by exactly one, whatever the outside world
  did during the item (failure paths included) and however many owners the item has.
\<close>
theorem conservation:
  assumes "0 < n_workers" and "crash_free sched" and "crash_free tsched"
  shows "(run (probate_process property_data_dict) sched
              (start_pool (map Some items @ replicate n_workers None) n_workers) = Some s
          \<and> terminated s \<longrightarrow>
            completed (stats_dict s) = int (length items) \<and> in_progress (stats_dict s) = 0)
         \<and> (run tax_process tsched
                (start_pool (map Some titems @ replicate n_workers None) n_workers) = Some t
            \<and> terminated t \<longrightarrow>
              completed (stats_dict t) = int (length titems) \<and> in_progress (stats_dict t) = 0)
         \<and> (worker_step (probate_process property_data_dict) w act u = Some u' \<longrightarrow>
              completed (stats_dict u')
                = completed (stats_dict u)
                  + (if is_busy (workers u ! w) \<and> \<not> is_crash act then 1 else 0))
         \<and> (worker_step tax_process w tact v = Some v' \<longrightarrow>
              completed (stats_dict v')
                = completed (stats_dict v)
                  + (if is_busy (workers v ! w) \<and> \<not> is_crash tact then 1 else 0))"
proof -
  have c1: "run (probate_process property_data_dict) sched
              (start_pool (map Some items @ replicate n_workers None) n_workers) = Some s
          \<and> terminated s \<longrightarrow>
            completed (stats_dict s) = int (length items) \<and> in_progress (stats_dict s) = 0"
    using pool_runs_to_shutdown(2)[OF probate_counts_once assms(1) assms(2)] by blast
  have c2: "run tax_process tsched
                (start_pool (map Some titems @ replicate n_workers None) n_workers) = Some t
            \<and> terminated t \<longrightarrow>
              completed (stats_dict t) = int (length titems) \<and> in_progress (stats_dict t) = 0"
    using pool_runs_to_shutdown(2)[OF tax_counts_once assms(1) assms(3)] by blast
  have c3: "worker_step (probate_process property_data_dict) w act u = Some u' \<longrightarrow>
              completed (stats_dict u')
                = completed (stats_dict u)
                  + (if is_busy (workers u ! w) \<and> \<not> is_crash act then 1 else 0)"
    using completed_step[OF probate_counts_once] by blast
  have c4: "worker_step tax_process w tact v = Some v' \<longrightarrow>
              completed (stats_dict v')
                = completed (stats_dict v)
                  + (if is_busy (workers v ! w) \<and> \<not> is_crash tact then 1 else 0)"
    using completed_step[OF tax_counts_once] by blast
  show ?thesis
    by (intro conjI, fact c1, fact c2, fact c3, fact c4)
qed

theorem conservation_witness:
  "(\<exists>s. run (probate_process Map.empty) probate_schedule
            (start_pool (map Some [doe_item, amp_item] @ replicate 2 None) 2) = Some s
        \<and> terminated s \<and> completed (stats_dict s) = 2 \<and> in_progress (stats_dict s) = 0)
   \<and> (\<exists>t. run tax_process tax_schedule
              (start_pool (map Some [tax_doe, (901, ''ROE'', ''RICHARD'')] @ replicate 2 None) 2)
            = Some t
          \<and> terminated t \<and> completed (stats_dict t) = 2 \<and> in_progress (stats_dict t) = 0)"
proof -
  have pos: "0 < (2 :: nat)" by simp
  have cf: "crash_free probate_schedule" by (simp add: crash_free_def probate_schedule_def)
  have tcf: "crash_free tax_schedule" by (simp add: crash_free_def tax_schedule_def)
  from probate_sample_run obtain s where
    s: "run (probate_process Map.empty) probate_schedule
          (start_pool (map Some [doe_item, amp_item] @ replicate 2 None) 2) = Some s"
    and ws: "workers s = [ShutDown, ShutDown]"
    by auto
  from tax_sample_run obtain t where
    t: "run tax_process tax_schedule
          (start_pool (map Some [tax_doe, (901, ''ROE'', ''RICHARD'')] @ replicate 2 None) 2)
          = Some t"
    and wt: "workers t = [ShutDown, ShutDown]"
    by auto
  from ws have ts: "terminated s" by (simp add: terminated_def)
  from wt have tt: "terminated t" by (simp add: terminated_def)
  note inst = conservation[OF pos cf tcf, where property_data_dict = Map.empty
      and items = "[doe_item, amp_item]" and s = s
      and titems = "[tax_doe, (901, ''ROE'', ''RICHARD'')]" and t = t]
  from inst[THEN conjunct1, rule_format, OF conjI[OF s ts]]
  have a: "completed (stats_dict s) = 2 \<and> in_progress (stats_dict s) = 0"
    by simp
  from inst[THEN conjunct2, THEN conjunct1, rule_format, OF conjI[OF t tt]]
  have b: "completed (stats_dict t) = 2 \<and> in_progress (stats_dict t) = 0"
    by simp
  from s ts a t tt b show ?thesis by blast
qed

text \<open>
  C2. The queue \<open>main\<close> hands to the workers is the items in ascending row order followed by
  one pill per worker. From it, every crash-free run of the pool has at most three steps
  per item and one per worker; while some worker has not ended, one of them can take a
  step that moves it on; and when all have ended the queue is empty, every worker has gone
  through a pill, and every item is counted.
\<close>
theorem sentinel_shutdown:
  assumes "0 < num_parallel_instances" and "crash_free sched" and "crash_free tsched"
  shows "(probate_queue start_from_row end_at_row num_parallel_instances all_owners = Some queue
          \<and> run (probate_process property_data_dict) sched (start_pool queue num_parallel_instances)
              = Some s \<longrightarrow>
            (\<exists>items.
               queue = map Some items @ replicate num_parallel_instances None
               \<and> sorted_wrt (<) (map fst items)
               \<and> map (fst \<circ> snd) items
                   = py_slice all_owners (nat (max 0 (start_from_row - 1)))
                                         (min (int (length all_owners)) end_at_row)
               \<and> length sched \<le> 3 * length items + num_parallel_instances
               \<and> (terminated s \<longrightarrow>
                     work_queue s = [] \<and> workers s = replicate num_parallel_instances ShutDown
                     \<and> completed (stats_dict s) = int (length items)
                     \<and> length sched = 3 * length items + num_parallel_instances
                     \<and> (\<forall>w act. worker_step (probate_process property_data_dict) w act s = None))
               \<and> (\<not> terminated s \<longrightarrow>
                     (\<exists>w < num_parallel_instances. \<forall>pages. \<exists>s'.
                         worker_step (probate_process property_data_dict) w (Run pages) s = Some s'
                         \<and> workers s' ! w \<noteq> workers s ! w))))
         \<and> (tax_queue num_parallel_instances
               (load_owners_from_file file_lines first_row last_row) = Some tqueue
            \<and> run tax_process tsched (start_pool tqueue num_parallel_instances) = Some t \<longrightarrow>
            (\<exists>items.
               tqueue = map Some items @ replicate num_parallel_instances None
               \<and> items = load_owners_from_file file_lines first_row last_row
               \<and> sorted_wrt (<) (map fst items)
               \<and> length tsched \<le> 3 * length items + num_parallel_instances
               \<and> (terminated t \<longrightarrow>
                     work_queue t = [] \<and> workers t = replicate num_parallel_instances ShutDown
                     \<and> completed (stats_dict t) = int (length items)
                     \<and> length tsched = 3 * length items + num_parallel_instances
                     \<and> (\<forall>w act. worker_step tax_process w act t = None))
               \<and> (\<not> terminated t \<longrightarrow>
                     (\<exists>w < num_parallel_instances. \<forall>page. \<exists>t'.
                         worker_step tax_process w (Run page) t = Some t'
                         \<and> workers t' ! w \<noteq> workers t ! w))))"
proof -
  have probate: "\<exists>items.
               queue = map Some items @ replicate num_parallel_instances None
               \<and> sorted_wrt (<) (map fst items)
               \<and> map (fst \<circ> snd) items
                   = py_slice all_owners (nat (max 0 (start_from_row - 1)))
                                         (min (int (length all_owners)) end_at_row)
               \<and> length sched \<le> 3 * length items + num_parallel_instances
               \<and> (terminated s \<longrightarrow>
                     work_queue s = [] \<and> workers s = replicate num_parallel_instances ShutDown
                     \<and> completed (stats_dict s) = int (length items)
                     \<and> length sched = 3 * length items + num_parallel_instances
                     \<and> (\<forall>w act. worker_step (probate_process property_data_dict) w act s = None))
               \<and> (\<not> terminated s \<longrightarrow>
                     (\<exists>w < num_parallel_instances. \<forall>pages. \<exists>s'.
                         worker_step (probate_process property_data_dict) w (Run pages) s = Some s'
                         \<and> workers s' ! w \<noteq> workers s ! w))"
    if q: "probate_queue start_from_row end_at_row num_parallel_instances all_owners = Some queue"
      and r: "run (probate_process property_data_dict) sched
                (start_pool queue num_parallel_instances) = Some s"
  proof -
    from probate_queue_shape[OF q] obtain items where
      shape: "queue = map Some items @ replicate num_parallel_instances None"
      and sorted: "sorted_wrt (<) (map fst items)"
      and raws: "map (fst \<circ> snd) items
                   = py_slice all_owners (nat (max 0 (start_from_row - 1)))
                                         (min (int (length all_owners)) end_at_row)"
      by blast
    note facts = pool_runs_to_shutdown[OF probate_counts_once assms(1) assms(2) r[unfolded shape]]
    from facts(1) have b: "length sched \<le> 3 * length items + num_parallel_instances" .
    from facts(2) terminated_no_step[of s "probate_process property_data_dict"]
    have t: "terminated s \<longrightarrow>
                     work_queue s = [] \<and> workers s = replicate num_parallel_instances ShutDown
                     \<and> completed (stats_dict s) = int (length items)
                     \<and> length sched = 3 * length items + num_parallel_instances
                     \<and> (\<forall>w act. worker_step (probate_process property_data_dict) w act s = None)"
      by blast
    from facts(3) have p: "\<not> terminated s \<longrightarrow>
                     (\<exists>w < num_parallel_instances. \<forall>pages. \<exists>s'.
                         worker_step (probate_process property_data_dict) w (Run pages) s = Some s'
                         \<and> workers s' ! w \<noteq> workers s ! w)" by blast
    from shape sorted raws b t p show ?thesis by blast
  qed
  have tax: "\<exists>items.
               tqueue = map Some items @ replicate num_parallel_instances None
               \<and> items = load_owners_from_file file_lines first_row last_row
               \<and> sorted_wrt (<) (map fst items)
               \<and> length tsched \<le> 3 * length items + num_parallel_instances
               \<and> (terminated t \<longrightarrow>
                     work_queue t = [] \<and> workers t = replicate num_parallel_instances ShutDown
                     \<and> completed (stats_dict t) = int (length items)
                     \<and> length tsched = 3 * length items + num_parallel_instances
                     \<and> (\<forall>w act. worker_step tax_process w act t = None))
               \<and> (\<not> terminated t \<longrightarrow>
                     (\<exists>w < num_parallel_instances. \<forall>page. \<exists>t'.
                         worker_step tax_process w (Run page) t = Some t'
                         \<and> workers t' ! w \<noteq> workers t ! w))"
    if q: "tax_queue num_parallel_instances
               (load_owners_from_file file_lines first_row last_row) = Some tqueue"
      and r: "run tax_process tsched (start_pool tqueue num_parallel_instances) = Some t"
  proof -
    from tax_queue_shape[OF q] obtain items where
      shape: "tqueue = map Some items @ replicate num_parallel_instances None"
      and loaded: "items = load_owners_from_file file_lines first_row last_row"
      and sorted: "sorted_wrt (<) (map fst items)"
      by blast
    note facts = pool_runs_to_shutdown[OF tax_counts_once assms(1) assms(3) r[unfolded shape]]
    from facts(1) have b: "length tsched \<le> 3 * length items + num_parallel_instances" .
    from facts(2) terminated_no_step[of t tax_process]
    have t: "terminated t \<longrightarrow>
                     work_queue t = [] \<and> workers t = replicate num_parallel_instances ShutDown
                     \<and> completed (stats_dict t) = int (length items)
                     \<and> length tsched = 3 * length items + num_parallel_instances
                     \<and> (\<forall>w act. worker_step tax_process w act t = None)"
      by blast
    from facts(3) have p: "\<not> terminated t \<longrightarrow>
                     (\<exists>w < num_parallel_instances. \<forall>page. \<exists>t'.
                         worker_step tax_process w (Run page) t = Some t'
                         \<and> workers t' ! w \<noteq> workers t ! w)" by blast
    from shape loaded sorted b t p show ?thesis by blast
  qed
  from probate tax show ?thesis by blast
qed

theorem sentinel_shutdown_witness:
  "(\<exists>queue s. probate_queue 3 10 2 probate_owners = Some queue
       \<and> run (probate_process Map.empty) probate_schedule (start_pool queue 2) = Some s
       \<and> terminated s \<and> work_queue s = [] \<and> workers s = [ShutDown, ShutDown]
       \<and> completed (stats_dict s) = 2 \<and> length probate_schedule = 8)
   \<and> (\<exists>queue t. tax_queue 2 (load_owners_from_file tax_lines 1 None) = Some queue
       \<and> run tax_process tax_schedule (start_pool queue 2) = Some t
       \<and> terminated t \<and> work_queue t = [] \<and> workers t = [ShutDown, ShutDown]
       \<and> completed (stats_dict t) = 2 \<and> length tax_schedule = 8)"
proof -
  have pos: "0 < (2 :: nat)" by simp
  have cf: "crash_free probate_schedule" by (simp add: crash_free_def probate_schedule_def)
  have tcf: "crash_free tax_schedule" by (simp add: crash_free_def tax_schedule_def)
  let ?q = "map Some [doe_item, amp_item] @ replicate 2 None"
  let ?tq = "map Some [(1 :: nat, ''DOE'', ''JANE''), (3, ''ROE'', ''RICHARD'')] @ replicate 2 None"
  from probate_sample_run obtain s where
    s: "run (probate_process Map.empty) probate_schedule (start_pool ?q 2) = Some s"
    and ws: "workers s = [ShutDown, ShutDown]"
    by auto
  from tax_sample_run_rows obtain t where
    t: "run tax_process tax_schedule (start_pool ?tq 2) = Some t"
    and wt: "workers t = [ShutDown, ShutDown]"
    by auto
  from ws have ts: "terminated s" by (simp add: terminated_def)
  from wt have tt: "terminated t" by (simp add: terminated_def)
  note inst = sentinel_shutdown[OF pos cf tcf]
  from inst[THEN conjunct1, rule_format, OF conjI[OF probate_sample_queue s]] ts
  obtain items where
    "?q = map Some items @ replicate 2 None" "work_queue s = []"
    "completed (stats_dict s) = int (length items)" "length probate_schedule = 3 * length items + 2"
    by blast
  then have a: "work_queue s = [] \<and> completed (stats_dict s) = 2 \<and> length probate_schedule = 8"
    by (auto simp: probate_schedule_def)
  from inst[THEN conjunct2, rule_format, OF conjI[OF tax_sample_queue t]] tt
  obtain titems where
    "?tq = map Some titems @ replicate 2 None" "work_queue t = []"
    "completed (stats_dict t) = int (length titems)" "length tax_schedule = 3 * length titems + 2"
    by blast
  then have b: "work_queue t = [] \<and> completed (stats_dict t) = 2 \<and> length tax_schedule = 8"
    by (auto simp: tax_schedule_def)
  from probate_sample_queue s ts ws a tax_sample_queue t tt wt b show ?thesis by blast
qed

end
